theory Spec2Isabelle
  imports Main
begin

section \<open>JavaScript strings and bytes\<close>

text \<open>
  A JavaScript string is a sequence of 16-bit code units and a \<open>Uint8Array\<close> a sequence of
  bytes. Both are lists of naturals here; no arithmetic of the program can overflow on
  them. \<open>js\<close> writes an ASCII literal of the source as a JavaScript string, \<open>ascii\<close> as
  the bytes it has on the wire.
\<close>

type_synonym jschar = nat
type_synonym jsstring = "jschar list"
type_synonym byte = nat

definition js :: "string \<Rightarrow> jsstring" where
  "js s = map of_char s"

definition ascii :: "string \<Rightarrow> byte list" where
  "ascii s = map of_char s"

section \<open>The transcript (ChatBox.tsx)\<close>

datatype role = User | Assistant

record Message =
  role :: role
  content :: jsstring

text \<open>
  The updater that the \<open>onChunk\<close> callback of \<open>handleSend\<close> passes to \<open>setMessages\<close>:
  \<^verbatim>\<open>
  message_state => {
      if (message_state.length === 0) return message_state;
      const last = message_state[message_state.length - 1];
      if(last.role !== "assistant") {
          return [...message_state, {role: "assistant", content: chunk}]
      }
      const updated = { ...last, content: last.content + chunk };
      return [...message_state.slice(0, -1), updated];
  }
  \<close>
\<close>

definition onChunk_updater :: "jsstring \<Rightarrow> Message list \<Rightarrow> Message list" where
  "onChunk_updater chunk message_state =
     (if length message_state = 0 then message_state
      else if role (last message_state) \<noteq> Assistant
        then message_state @ [\<lparr>role = Assistant, content = chunk\<rparr>]
      else butlast message_state
             @ [(last message_state)\<lparr>content := content (last message_state) @ chunk\<rparr>])"

section \<open>Built-ins of the platform used by the decoder\<close>

subsection \<open>String.prototype.trim, startsWith, slice\<close>

text \<open>
  \<open>trim\<close> removes the code units of ECMAScript's WhiteSpace and LineTerminator from
  both ends: TAB, LF, VT, FF, CR, SP, NBSP, U+1680, U+2000 to U+200A, U+2028, U+2029,
  U+202F, U+205F, U+3000 and U+FEFF.
\<close>

definition isWhiteSpace :: "jschar \<Rightarrow> bool" where
  "isWhiteSpace c =
     (c = 0x09 \<or> c = 0x0A \<or> c = 0x0B \<or> c = 0x0C \<or> c = 0x0D \<or> c = 0x20 \<or> c = 0xA0
      \<or> c = 0x1680 \<or> (0x2000 \<le> c \<and> c \<le> 0x200A) \<or> c = 0x2028 \<or> c = 0x2029
      \<or> c = 0x202F \<or> c = 0x205F \<or> c = 0x3000 \<or> c = 0xFEFF)"

definition trim :: "jsstring \<Rightarrow> jsstring" where
  "trim s = rev (dropWhile isWhiteSpace (rev (dropWhile isWhiteSpace s)))"

definition startsWith :: "jsstring \<Rightarrow> jsstring \<Rightarrow> bool" where
  "startsWith s p = (take (length p) s = p)"

definition slice_from :: "nat \<Rightarrow> jsstring \<Rightarrow> jsstring" where
  "slice_from n s = drop n s"

subsection \<open>String.prototype.split with the two separators of the source\<close>

text \<open>
  A separator is given by its match at the start of a string: the rest of the string
  after the match, or None. In \<^verbatim>\<open>/\r?\n/\<close> and \<^verbatim>\<open>/\r?\n\r?\n/\<close> the optional CR is greedy;
  the alternative that leaves a CR unmatched would need an LF in the place of that CR, so
  backtracking never finds a second match and the match is the one computed here.
\<close>

fun opt_CR :: "jsstring \<Rightarrow> jsstring" where
  "opt_CR [] = []"
| "opt_CR (c # cs) = (if c = 0x0D then cs else c # cs)"

fun lit_LF :: "jsstring \<Rightarrow> jsstring option" where
  "lit_LF [] = None"
| "lit_LF (c # cs) = (if c = 0x0A then Some cs else None)"

definition line_break :: "jsstring \<Rightarrow> jsstring option" where
  "line_break s = lit_LF (opt_CR s)"

definition blank_line :: "jsstring \<Rightarrow> jsstring option" where
  "blank_line s = (case lit_LF (opt_CR s) of None \<Rightarrow> None | Some t \<Rightarrow> lit_LF (opt_CR t))"

text \<open>
  \<open>split\<close> scans from the left: where the separator matches, the piece collected so far
  is closed and the scan goes on after the match; elsewhere the code unit joins the
  piece. The last piece is what follows the last match, so the result is never empty.
  A match that consumes nothing advances by one code unit; neither separator of the
  source has one.
\<close>

fun split_from :: "(jsstring \<Rightarrow> jsstring option) \<Rightarrow> jsstring \<Rightarrow> jsstring \<Rightarrow> jsstring list" where
  "split_from sep piece [] = [piece]"
| "split_from sep piece (c # cs) =
     (case sep (c # cs) of
        None \<Rightarrow> split_from sep (piece @ [c]) cs
      | Some rest \<Rightarrow>
          if length rest < length (c # cs) then piece # split_from sep [] rest
          else split_from sep (piece @ [c]) cs)"

definition split :: "(jsstring \<Rightarrow> jsstring option) \<Rightarrow> jsstring \<Rightarrow> jsstring list" where
  "split sep s = split_from sep [] s"

subsection \<open>Values, property access and string coercion\<close>

text \<open>
  The values \<open>JSON.parse\<close> returns, and \<open>undefined\<close>, which reading a missing property
  gives. A number is kept as the literal it was written as: its value is a double and
  printing it (Number::toString) is floating point, so the decoder takes the printing
  function as a parameter \<open>nts\<close>, from the literal to the printed string. An object is
  the list of its members in source order; a repeated key takes its last value.
\<close>

datatype jsval =
    JUndefined
  | JNull
  | JBool bool
  | JNumber jsstring
  | JString jsstring
  | JArray "jsval list"
  | JObject "(jsstring \<times> jsval) list"

datatype exn =
    Error jsstring
  | TypeError
  | AbortError
  | NetworkError

text \<open>
  \<open>msg.text\<close>: reading a property of \<open>null\<close> throws a TypeError; an object gives its own
  member or \<open>undefined\<close>; arrays, strings, numbers and booleans have no property \<open>text\<close>.
\<close>

fun Get_text :: "jsval \<Rightarrow> exn + jsval" where
  "Get_text JUndefined = Inl TypeError"
| "Get_text JNull = Inl TypeError"
| "Get_text (JObject members) =
     (case map_of (rev members) (js ''text'') of None \<Rightarrow> Inr JUndefined | Some v \<Rightarrow> Inr v)"
| "Get_text _ = Inr JUndefined"

text \<open>
  \<open>String(v)\<close> and \<open>Array.prototype.join\<close>. An array prints as its elements joined by a
  comma; in a join \<open>undefined\<close> and \<open>null\<close> print as the empty string. A plain object
  prints as \<open>[object Object]\<close> through \<open>Object.prototype.toString\<close>, unless a member named
  \<open>toString\<close> shadows it: that member is data, not a function, \<open>valueOf\<close> then gives no
  primitive either, and the conversion throws a TypeError.
\<close>

fun ToString :: "(jsstring \<Rightarrow> jsstring) \<Rightarrow> jsval \<Rightarrow> exn + jsstring"
  and join :: "(jsstring \<Rightarrow> jsstring) \<Rightarrow> jsstring \<Rightarrow> jsval list \<Rightarrow> exn + jsstring" where
  "ToString nts JUndefined = Inr (js ''undefined'')"
| "ToString nts JNull = Inr (js ''null'')"
| "ToString nts (JBool b) = Inr (if b then js ''true'' else js ''false'')"
| "ToString nts (JNumber literal) = Inr (nts literal)"
| "ToString nts (JString s) = Inr s"
| "ToString nts (JArray elements) = join nts (js '','') elements"
| "ToString nts (JObject members) =
     (if js ''toString'' \<in> fst ` set members then Inl TypeError
      else Inr (js ''[object Object]''))"
| "join nts sep [] = Inr []"
| "join nts sep (x # xs) =
     (case (if x = JUndefined \<or> x = JNull then Inr [] else ToString nts x) of
        Inl e \<Rightarrow> Inl e
      | Inr s \<Rightarrow>
          if xs = [] then Inr s
          else (case join nts sep xs of Inl e \<Rightarrow> Inl e | Inr r \<Rightarrow> Inr (s @ sep @ r)))"

definition isArray :: "jsval \<Rightarrow> bool" where
  "isArray v = (case v of JArray _ \<Rightarrow> True | _ \<Rightarrow> False)"

definition isString :: "jsval \<Rightarrow> bool" where
  "isString v = (case v of JString _ \<Rightarrow> True | _ \<Rightarrow> False)"

subsection \<open>JSON.parse\<close>

text \<open>
  The JSON grammar of ECMA-404, as \<open>JSON.parse\<close> reads it: None stands for the
  SyntaxError it throws. Every parser takes the text and returns what it read with the
  rest of the text. The parsers of nested values take a bound on the number of nested
  calls; \<open>JSON_parse\<close> starts them with a bound twice the length of the text, which no
  text reaches, since every value, every element and every member reads at least one
  code unit.
\<close>

definition isJSONWhiteSpace :: "jschar \<Rightarrow> bool" where
  "isJSONWhiteSpace c = (c = 0x09 \<or> c = 0x0A \<or> c = 0x0D \<or> c = 0x20)"

definition skip_ws :: "jsstring \<Rightarrow> jsstring" where
  "skip_ws s = dropWhile isJSONWhiteSpace s"

definition isDigit :: "jschar \<Rightarrow> bool" where
  "isDigit c = (0x30 \<le> c \<and> c \<le> 0x39)"

definition hex_digit :: "jschar \<Rightarrow> nat option" where
  "hex_digit c =
     (if 0x30 \<le> c \<and> c \<le> 0x39 then Some (c - 0x30)
      else if 0x41 \<le> c \<and> c \<le> 0x46 then Some (c - 0x41 + 10)
      else if 0x61 \<le> c \<and> c \<le> 0x66 then Some (c - 0x61 + 10)
      else None)"

definition unicode_escape :: "jsstring \<Rightarrow> jschar option" where
  "unicode_escape s =
     (case map hex_digit s of
        [Some a, Some b, Some c, Some d] \<Rightarrow> Some (((a * 16 + b) * 16 + c) * 16 + d)
      | _ \<Rightarrow> None)"

definition simple_escape :: "jschar \<Rightarrow> jschar option" where
  "simple_escape c =
     (if c = 0x22 then Some 0x22
      else if c = 0x5C then Some 0x5C
      else if c = 0x2F then Some 0x2F
      else if c = 0x62 then Some 0x08
      else if c = 0x66 then Some 0x0C
      else if c = 0x6E then Some 0x0A
      else if c = 0x72 then Some 0x0D
      else if c = 0x74 then Some 0x09
      else None)"

text \<open>The characters of a string after its opening quote, up to the closing quote.\<close>

fun parse_chars :: "jsstring \<Rightarrow> jsstring \<Rightarrow> (jsstring \<times> jsstring) option" where
  "parse_chars acc [] = None"
| "parse_chars acc (c # cs) =
     (if c = 0x22 then Some (acc, cs)
      else if c < 0x20 then None
      else if c \<noteq> 0x5C then parse_chars (acc @ [c]) cs
      else (case cs of
          [] \<Rightarrow> None
        | e # es \<Rightarrow>
            if e = 0x75 then
              (case unicode_escape (take 4 es) of
                 None \<Rightarrow> None
               | Some u \<Rightarrow> parse_chars (acc @ [u]) (drop 4 es))
            else
              (case simple_escape e of
                 None \<Rightarrow> None
               | Some u \<Rightarrow> parse_chars (acc @ [u]) es)))"

text \<open>
  A number: an optional minus, an integer part without a leading zero, an optional
  fraction and an optional exponent. The value keeps the literal.
\<close>

definition digits1 :: "jsstring \<Rightarrow> jsstring option" where
  "digits1 s = (if takeWhile isDigit s = [] then None else Some (dropWhile isDigit s))"

definition int_part :: "jsstring \<Rightarrow> jsstring option" where
  "int_part s =
     (case s of
        [] \<Rightarrow> None
      | c # cs \<Rightarrow> if c = 0x30 then Some cs else digits1 (c # cs))"

definition frac_part :: "jsstring \<Rightarrow> jsstring option" where
  "frac_part s =
     (case s of
        [] \<Rightarrow> Some s
      | c # cs \<Rightarrow> if c = 0x2E then digits1 cs else Some s)"

definition exp_part :: "jsstring \<Rightarrow> jsstring option" where
  "exp_part s =
     (case s of
        [] \<Rightarrow> Some s
      | c # cs \<Rightarrow>
          if c = 0x65 \<or> c = 0x45 then
            (case cs of
               [] \<Rightarrow> None
             | d # ds \<Rightarrow> if d = 0x2B \<or> d = 0x2D then digits1 ds else digits1 cs)
          else Some s)"

definition parse_number :: "jsstring \<Rightarrow> (jsval \<times> jsstring) option" where
  "parse_number s =
     (case int_part (case s of [] \<Rightarrow> [] | c # cs \<Rightarrow> if c = 0x2D then cs else s) of
        None \<Rightarrow> None
      | Some s1 \<Rightarrow>
          (case frac_part s1 of
             None \<Rightarrow> None
           | Some s2 \<Rightarrow>
               (case exp_part s2 of
                  None \<Rightarrow> None
                | Some rest \<Rightarrow> Some (JNumber (take (length s - length rest) s), rest))))"

definition parse_literal :: "jsstring \<Rightarrow> (jsval \<times> jsstring) option" where
  "parse_literal s =
     (if startsWith s (js ''null'') then Some (JNull, drop 4 s)
      else if startsWith s (js ''true'') then Some (JBool True, drop 4 s)
      else if startsWith s (js ''false'') then Some (JBool False, drop 5 s)
      else None)"

text \<open>
  \<open>parse_elements\<close> reads the elements of an array after its opening bracket or a comma,
  \<open>parse_members\<close> the members of an object after its opening brace or a comma.
\<close>

fun parse_value :: "nat \<Rightarrow> jsstring \<Rightarrow> (jsval \<times> jsstring) option"
  and parse_elements :: "nat \<Rightarrow> jsval list \<Rightarrow> jsstring \<Rightarrow> (jsval list \<times> jsstring) option"
  and parse_members ::
    "nat \<Rightarrow> (jsstring \<times> jsval) list \<Rightarrow> jsstring \<Rightarrow> ((jsstring \<times> jsval) list \<times> jsstring) option"
  where
  "parse_value 0 s = None"
| "parse_value (Suc n) s =
     (case skip_ws s of
        [] \<Rightarrow> None
      | c # cs \<Rightarrow>
          if c = 0x7B then
            (case skip_ws cs of
               [] \<Rightarrow> None
             | d # ds \<Rightarrow>
                 if d = 0x7D then Some (JObject [], ds)
                 else (case parse_members n [] (d # ds) of
                         None \<Rightarrow> None
                       | Some (members, rest) \<Rightarrow> Some (JObject members, rest)))
          else if c = 0x5B then
            (case skip_ws cs of
               [] \<Rightarrow> None
             | d # ds \<Rightarrow>
                 if d = 0x5D then Some (JArray [], ds)
                 else (case parse_elements n [] (d # ds) of
                         None \<Rightarrow> None
                       | Some (elements, rest) \<Rightarrow> Some (JArray elements, rest)))
          else if c = 0x22 then
            (case parse_chars [] cs of
               None \<Rightarrow> None
             | Some (str, rest) \<Rightarrow> Some (JString str, rest))
          else if c = 0x2D \<or> isDigit c then parse_number (c # cs)
          else parse_literal (c # cs))"
| "parse_elements 0 acc s = None"
| "parse_elements (Suc n) acc s =
     (case parse_value n s of
        None \<Rightarrow> None
      | Some (v, rest) \<Rightarrow>
          (case skip_ws rest of
             [] \<Rightarrow> None
           | c # cs \<Rightarrow>
               if c = 0x2C then parse_elements n (acc @ [v]) cs
               else if c = 0x5D then Some (acc @ [v], cs)
               else None))"
| "parse_members 0 acc s = None"
| "parse_members (Suc n) acc s =
     (case skip_ws s of
        [] \<Rightarrow> None
      | q # qs \<Rightarrow>
          if q \<noteq> 0x22 then None
          else (case parse_chars [] qs of
              None \<Rightarrow> None
            | Some (k, rest) \<Rightarrow>
                (case skip_ws rest of
                   [] \<Rightarrow> None
                 | c # cs \<Rightarrow>
                     if c \<noteq> 0x3A then None
                     else (case parse_value n cs of
                         None \<Rightarrow> None
                       | Some (v, rest') \<Rightarrow>
                           (case skip_ws rest' of
                              [] \<Rightarrow> None
                            | d # ds \<Rightarrow>
                                if d = 0x2C then parse_members n (acc @ [(k, v)]) ds
                                else if d = 0x7D then Some (acc @ [(k, v)], ds)
                                else None)))))"

definition JSON_parse :: "jsstring \<Rightarrow> jsval option" where
  "JSON_parse s =
     (case parse_value (2 * length s + 2) s of
        None \<Rightarrow> None
      | Some (v, rest) \<Rightarrow> if skip_ws rest = [] then Some v else None)"

subsection \<open>TextDecoder("utf-8") in stream mode\<close>

text \<open>
  The UTF-8 decoder of the WHATWG Encoding Standard, as \<open>decoder.decode(value, {stream: true})\<close>
  runs it: the decoder keeps its state between calls and is never flushed. A byte either
  starts a sequence, continues one, or is in error; an error gives U+FFFD, and a byte
  that cannot continue the open sequence is read again as the start of the next. The
  first code point of the stream is dropped when it is the byte order mark U+FEFF
  (\<open>ignoreBOM\<close> is false). Code points above U+FFFF are two code units of the string.
\<close>

record utf8_decoder =
  code_point :: nat
  bytes_seen :: nat
  bytes_needed :: nat
  lower_boundary :: nat
  upper_boundary :: nat
  BOM_seen :: bool

definition new_TextDecoder :: utf8_decoder where
  "new_TextDecoder =
     \<lparr>code_point = 0, bytes_seen = 0, bytes_needed = 0,
      lower_boundary = 0x80, upper_boundary = 0xBF, BOM_seen = False\<rparr>"

definition reset_sequence :: "utf8_decoder \<Rightarrow> utf8_decoder" where
  "reset_sequence d =
     d\<lparr>code_point := 0, bytes_seen := 0, bytes_needed := 0,
       lower_boundary := 0x80, upper_boundary := 0xBF\<rparr>"

definition lead_byte :: "utf8_decoder \<Rightarrow> byte \<Rightarrow> utf8_decoder \<times> nat list" where
  "lead_byte d b =
     (if b \<le> 0x7F then (d, [b])
      else if 0xC2 \<le> b \<and> b \<le> 0xDF then
        (d\<lparr>bytes_needed := 1, code_point := b mod 32\<rparr>, [])
      else if 0xE0 \<le> b \<and> b \<le> 0xEF then
        (d\<lparr>lower_boundary := (if b = 0xE0 then 0xA0 else lower_boundary d),
           upper_boundary := (if b = 0xED then 0x9F else upper_boundary d),
           bytes_needed := 2, code_point := b mod 16\<rparr>, [])
      else if 0xF0 \<le> b \<and> b \<le> 0xF4 then
        (d\<lparr>lower_boundary := (if b = 0xF0 then 0x90 else lower_boundary d),
           upper_boundary := (if b = 0xF4 then 0x8F else upper_boundary d),
           bytes_needed := 3, code_point := b mod 8\<rparr>, [])
      else (d, [0xFFFD]))"

definition utf8_handler :: "utf8_decoder \<Rightarrow> byte \<Rightarrow> utf8_decoder \<times> nat list" where
  "utf8_handler d b =
     (if bytes_needed d = 0 then lead_byte d b
      else if b < lower_boundary d \<or> upper_boundary d < b then
        (case lead_byte (reset_sequence d) b of (d', out) \<Rightarrow> (d', 0xFFFD # out))
      else
        (let d1 = d\<lparr>lower_boundary := 0x80, upper_boundary := 0xBF,
                     code_point := code_point d * 64 + b mod 64,
                     bytes_seen := bytes_seen d + 1\<rparr>
         in if bytes_seen d1 \<noteq> bytes_needed d1 then (d1, [])
            else (reset_sequence d1, [code_point d1])))"

definition utf16 :: "nat \<Rightarrow> jsstring" where
  "utf16 cp =
     (if cp < 0x10000 then [cp]
      else [0xD800 + (cp - 0x10000) div 0x400, 0xDC00 + (cp - 0x10000) mod 0x400])"

fun serialize :: "utf8_decoder \<Rightarrow> nat list \<Rightarrow> utf8_decoder \<times> jsstring" where
  "serialize d [] = (d, [])"
| "serialize d (cp # cps) =
     (if \<not> BOM_seen d \<and> cp = 0xFEFF then serialize (d\<lparr>BOM_seen := True\<rparr>) cps
      else (case serialize (d\<lparr>BOM_seen := True\<rparr>) cps of
              (d', out) \<Rightarrow> (d', utf16 cp @ out)))"

fun TextDecoder_decode :: "utf8_decoder \<Rightarrow> byte list \<Rightarrow> utf8_decoder \<times> jsstring" where
  "TextDecoder_decode d [] = (d, [])"
| "TextDecoder_decode d (b # bs) =
     (case utf8_handler d b of
        (d1, cps) \<Rightarrow>
          (case serialize d1 cps of
             (d2, out) \<Rightarrow>
               (case TextDecoder_decode d2 bs of (d3, later) \<Rightarrow> (d3, out @ later))))"

text \<open>
  The UTF-8 encoding of a Unicode scalar value (RFC 3629): the bytes a server sends for
  a character, and what a character that spans two reads is split from.
\<close>

definition is_scalar_value :: "nat \<Rightarrow> bool" where
  "is_scalar_value cp = (cp < 0xD800 \<or> (0xE000 \<le> cp \<and> cp \<le> 0x10FFFF))"

definition utf8_encode :: "nat \<Rightarrow> byte list" where
  "utf8_encode cp =
     (if cp < 0x80 then [cp]
      else if cp < 0x800 then [0xC0 + cp div 0x40, 0x80 + cp mod 0x40]
      else if cp < 0x10000 then
        [0xE0 + cp div 0x1000, 0x80 + cp div 0x40 mod 0x40, 0x80 + cp mod 0x40]
      else
        [0xF0 + cp div 0x40000, 0x80 + cp div 0x1000 mod 0x40, 0x80 + cp div 0x40 mod 0x40,
         0x80 + cp mod 0x40])"

section \<open>The stream decoder: chatWithLLM\<close>

text \<open>
  What the network gives a send. \<open>fetch\<close> rejects or resolves with a response; a response
  has a status and a body, or no body; \<open>res.ok\<close> holds for the statuses 200 to 299. A body
  is the finite sequence of results of \<open>reader.read()\<close>: a chunk of bytes, or a rejection;
  after the last one the read reports \<open>done\<close>.
\<close>

datatype read_result = Chunk "byte list" | Read_rejected exn

record response =
  status :: nat
  body :: "read_result list option"

datatype fetch_result = Fetch_rejected exn | Response response

definition ok :: "response \<Rightarrow> bool" where
  "ok res = (200 \<le> status res \<and> status res \<le> 299)"

text \<open>The decimal digits of a status, for the message of the error.\<close>

fun decimal :: "nat \<Rightarrow> jsstring" where
  "decimal n = (if n < 10 then [0x30 + n] else decimal (n div 10) @ [0x30 + n mod 10])"

declare decimal.simps [simp del]

text \<open>
  The effect of one line, of the lines of one event, and of the events of one read on the
  state \<open>st\<close> that the callback \<open>onChunk\<close> updates: the loop goes on (Continue), the
  function returns after \<open>reader.cancel()\<close> (Return), or an exception leaves it (Throw).
  \<^verbatim>\<open>
  if (!line.startsWith("data:")) continue;
  const raw = line.slice("data:".length).trim();
  if (raw === "[DONE]") { await reader.cancel(); return; }
  let msg: any;
  try {
    msg = JSON.parse(raw);
    if(msg.text === "[DONE]") {
      (Array.isArray(msg.text) && msg.text.length === 1 && msg.text[0] === "[DONE]")
      await reader.cancel();
      return;
    }
  } catch (e) { onChunk(raw); continue; }
  let text = msg.text;
  if (Array.isArray(text)) { text = text.join(""); }
  else if (typeof text !== "string") { text = String(text); }
  onChunk(text);
  \<close>
  The expression statement inside the second \<open>if\<close> has no effect. The \<open>join\<close> and the
  \<open>String\<close> stand after the \<open>try\<close>, so what they throw leaves the function.
\<close>

datatype 's step = Continue 's | Return 's | Throw exn 's

definition normalize_text :: "(jsstring \<Rightarrow> jsstring) \<Rightarrow> jsval \<Rightarrow> exn + jsstring" where
  "normalize_text nts text =
     (case text of
        JArray elements \<Rightarrow> join nts [] elements
      | JString s \<Rightarrow> Inr s
      | _ \<Rightarrow> ToString nts text)"

definition handle_line ::
  "(jsstring \<Rightarrow> jsstring) \<Rightarrow> (jsstring \<Rightarrow> 's \<Rightarrow> 's) \<Rightarrow> jsstring \<Rightarrow> 's \<Rightarrow> 's step" where
  "handle_line nts onChunk line st =
     (if \<not> startsWith line (js ''data:'') then Continue st
      else let raw = trim (slice_from (length (js ''data:'')) line) in
        if raw = js ''[DONE]'' then Return st
        else (case JSON_parse raw of
            None \<Rightarrow> Continue (onChunk raw st)
          | Some msg \<Rightarrow>
              (case Get_text msg of
                 Inl e \<Rightarrow> Continue (onChunk raw st)
               | Inr text \<Rightarrow>
                   if text = JString (js ''[DONE]'') then Return st
                   else (case normalize_text nts text of
                           Inl e \<Rightarrow> Throw e st
                         | Inr fragment \<Rightarrow> Continue (onChunk fragment st)))))"

fun for_lines ::
  "(jsstring \<Rightarrow> jsstring) \<Rightarrow> (jsstring \<Rightarrow> 's \<Rightarrow> 's) \<Rightarrow> jsstring list \<Rightarrow> 's \<Rightarrow> 's step" where
  "for_lines nts onChunk [] st = Continue st"
| "for_lines nts onChunk (line # lines) st =
     (case handle_line nts onChunk line st of
        Continue st' \<Rightarrow> for_lines nts onChunk lines st'
      | Return st' \<Rightarrow> Return st'
      | Throw e st' \<Rightarrow> Throw e st')"

fun for_events ::
  "(jsstring \<Rightarrow> jsstring) \<Rightarrow> (jsstring \<Rightarrow> 's \<Rightarrow> 's) \<Rightarrow> jsstring list \<Rightarrow> 's \<Rightarrow> 's step" where
  "for_events nts onChunk [] st = Continue st"
| "for_events nts onChunk (event # events) st =
     (case for_lines nts onChunk (split line_break event) st of
        Continue st' \<Rightarrow> for_events nts onChunk events st'
      | Return st' \<Rightarrow> Return st'
      | Throw e st' \<Rightarrow> Throw e st')"

text \<open>
  How a call of \<open>chatWithLLM\<close> ends, with the state the callback has built: the body was
  read to its end (Done), the sentinel was met and the reader cancelled (Cancelled), or
  the promise is rejected (Thrown).
  \<^verbatim>\<open>
  while (true) {
    const { value, done } = await reader.read();
    if (done) break;
    buffer += decoder.decode(value, { stream: true });
    const events = buffer.split(/\r?\n\r?\n/);
    buffer = events.pop()!;
    for (const event of events) { for (const line of event.split(/\r?\n/)) { ... } }
  }
  \<close>
\<close>

datatype 's completion = Done 's | Cancelled 's | Thrown exn 's

fun step_state :: "'s step \<Rightarrow> 's" where
  "step_state (Continue st) = st"
| "step_state (Return st) = st"
| "step_state (Throw e st) = st"

fun completion_state :: "'s completion \<Rightarrow> 's" where
  "completion_state (Done st) = st"
| "completion_state (Cancelled st) = st"
| "completion_state (Thrown e st) = st"

fun read_loop ::
  "(jsstring \<Rightarrow> jsstring) \<Rightarrow> (jsstring \<Rightarrow> 's \<Rightarrow> 's) \<Rightarrow> read_result list
     \<Rightarrow> utf8_decoder \<Rightarrow> jsstring \<Rightarrow> 's \<Rightarrow> 's completion" where
  "read_loop nts onChunk [] decoder buffer st = Done st"
| "read_loop nts onChunk (Read_rejected e # reads) decoder buffer st = Thrown e st"
| "read_loop nts onChunk (Chunk bytes # reads) decoder buffer st =
     (case TextDecoder_decode decoder bytes of
        (decoder', decoded) \<Rightarrow>
          (let events = split blank_line (buffer @ decoded) in
           case for_events nts onChunk (butlast events) st of
             Continue st' \<Rightarrow> read_loop nts onChunk reads decoder' (last events) st'
           | Return st' \<Rightarrow> Cancelled st'
           | Throw e st' \<Rightarrow> Thrown e st'))"

definition chatWithLLM ::
  "(jsstring \<Rightarrow> jsstring) \<Rightarrow> (jsstring \<Rightarrow> 's \<Rightarrow> 's) \<Rightarrow> fetch_result \<Rightarrow> 's \<Rightarrow> 's completion" where
  "chatWithLLM nts onChunk fetched st =
     (case fetched of
        Fetch_rejected e \<Rightarrow> Thrown e st
      | Response res \<Rightarrow>
          if \<not> ok res then Thrown (Error (js ''Stream request failed: '' @ decimal (status res))) st
          else (case body res of
              None \<Rightarrow> Thrown (Error (js ''No response body'')) st
            | Some reads \<Rightarrow> read_loop nts onChunk reads new_TextDecoder [] st))"

text \<open>The fragments of a call in order: the callback that records its arguments.\<close>

definition record_chunk :: "jsstring \<Rightarrow> jsstring list \<Rightarrow> jsstring list" where
  "record_chunk chunk chunks = chunks @ [chunk]"

section \<open>The transcript assembler: handleSend (ChatBox.tsx)\<close>

text \<open>
  The state of the component: the three \<open>useState\<close> cells, the errors written with
  \<open>console.error\<close>, and the prompts posted to \<open>/chat/stream\<close>. The handle the component
  exposes is \<open>{ handleSend, streaming }\<close>.
  \<^verbatim>\<open>
  async function handleSend(input: string) {
    if (!input.trim()) return;
    setMessages(message_state => [...message_state, {role: "user", content: input}]);
    setMessages(message_state => [...message_state, {role: "assistant", content: ""}]);
    setStreaming(true);
    const controller = new AbortController();
    setAbortController(controller);
    try { await chatWithLLM(input, (chunk: string) => { setMessages(...) }, controller.signal); }
    catch (err) { console.error("Streaming error:", err); }
    finally { setStreaming(false); }
  }
  \<close>
  \<open>network\<close> is what the request with a given prompt is answered with.
\<close>

record AbortController =
  aborted :: bool

record ChatBox =
  messages :: "Message list"
  streaming :: bool
  abortController :: "AbortController option"
  console_error :: "exn list"
  posted :: "jsstring list"

record ChatBoxHandle =
  handle_handleSend :: "jsstring \<Rightarrow> ChatBox \<Rightarrow> ChatBox"
  handle_streaming :: bool

definition setMessages :: "(Message list \<Rightarrow> Message list) \<Rightarrow> ChatBox \<Rightarrow> ChatBox" where
  "setMessages updater st = st\<lparr>messages := updater (messages st)\<rparr>"

definition setStreaming :: "bool \<Rightarrow> ChatBox \<Rightarrow> ChatBox" where
  "setStreaming b st = st\<lparr>streaming := b\<rparr>"

definition setAbortController :: "AbortController \<Rightarrow> ChatBox \<Rightarrow> ChatBox" where
  "setAbortController controller st = st\<lparr>abortController := Some controller\<rparr>"

definition handleSend_onChunk :: "jsstring \<Rightarrow> ChatBox \<Rightarrow> ChatBox" where
  "handleSend_onChunk chunk st = setMessages (onChunk_updater chunk) st"

text \<open>The statements of \<open>handleSend\<close> before its \<open>try\<close>, for an input that is not blank.\<close>

definition handleSend_begin :: "jsstring \<Rightarrow> ChatBox \<Rightarrow> ChatBox" where
  "handleSend_begin input st =
     (let st1 = setMessages (\<lambda>message_state. message_state @ [\<lparr>role = User, content = input\<rparr>]) st;
          st2 = setMessages (\<lambda>message_state. message_state @ [\<lparr>role = Assistant, content = []\<rparr>]) st1;
          st3 = setStreaming True st2
      in setAbortController \<lparr>aborted = False\<rparr> st3)"

text \<open>
  The first thing \<open>chatWithLLM\<close> does is to post the prompt to \<open>/chat/stream\<close>;
  \<open>post_prompt\<close> records the request at the call.
\<close>

definition post_prompt :: "jsstring \<Rightarrow> ChatBox \<Rightarrow> ChatBox" where
  "post_prompt prompt st = st\<lparr>posted := posted st @ [prompt]\<rparr>"

definition handleSend ::
  "(jsstring \<Rightarrow> jsstring) \<Rightarrow> (jsstring \<Rightarrow> fetch_result) \<Rightarrow> jsstring \<Rightarrow> ChatBox \<Rightarrow> ChatBox" where
  "handleSend nts network input st =
     (if trim input = [] then st
      else
        let st4 = handleSend_begin input st;
            st5 = (case chatWithLLM nts handleSend_onChunk (network input) (post_prompt input st4) of
                     Done st' \<Rightarrow> st'
                   | Cancelled st' \<Rightarrow> st'
                   | Thrown err st' \<Rightarrow> st'\<lparr>console_error := console_error st' @ [err]\<rparr>)
        in setStreaming False st5)"

text \<open>A network that answers every request with the same result.\<close>

definition answers :: "fetch_result \<Rightarrow> jsstring \<Rightarrow> fetch_result" where
  "answers fetched prompt = fetched"

definition ChatBox_handle :: "(jsstring \<Rightarrow> jsstring) \<Rightarrow> (jsstring \<Rightarrow> fetch_result) \<Rightarrow> ChatBox \<Rightarrow> ChatBoxHandle" where
  "ChatBox_handle nts network st =
     \<lparr>handle_handleSend = handleSend nts network, handle_streaming = streaming st\<rparr>"

section \<open>Evaluating the decoder on a given input\<close>

text \<open>
  The equations the simplifier runs the definitions with. The parsers of nested values
  are unfolded where their bound is positive.
\<close>

lemma parse_value_pos:
  "0 < n \<Longrightarrow> parse_value n s = parse_value (Suc (n - 1)) s"
  "0 < n \<Longrightarrow> parse_elements n vs s = parse_elements (Suc (n - 1)) vs s"
  "0 < n \<Longrightarrow> parse_members n ms s = parse_members (Suc (n - 1)) ms s"
  by simp_all

lemmas parse_value_unfold =
  parse_value_pos(1) [unfolded parse_value.simps]
  parse_value_pos(2) [unfolded parse_elements.simps]
  parse_value_pos(3) [unfolded parse_members.simps]

lemmas decoder_eval =
  js_def ascii_def isWhiteSpace_def trim_def startsWith_def slice_from_def
  line_break_def blank_line_def split_def isArray_def isString_def
  isJSONWhiteSpace_def skip_ws_def isDigit_def hex_digit_def unicode_escape_def
  simple_escape_def digits1_def int_part_def frac_part_def exp_part_def parse_number_def
  parse_literal_def JSON_parse_def parse_value_unfold
  new_TextDecoder_def reset_sequence_def lead_byte_def utf8_handler_def utf16_def
  ok_def normalize_text_def handle_line_def chatWithLLM_def record_chunk_def

section \<open>Splitting a text that arrives in pieces\<close>

text \<open>
  A match of the blank-line separator that starts in a text is still there when more text
  follows; a text that ends inside a possible match has no match of its own. So the
  events of \<open>x @ y\<close> are the complete events of \<open>x\<close> followed by the events of what \<open>x\<close>
  left over followed by \<open>y\<close>.
\<close>

lemma split_from_not_Nil [simp]: "split_from sep piece s \<noteq> []"
  by (induction sep piece s rule: split_from.induct) (auto split: option.splits)

lemma lit_LF_opt_CR_append:
  "lit_LF (opt_CR s) = Some t \<Longrightarrow> lit_LF (opt_CR (s @ y)) = Some (t @ y)"
  by (cases s; cases "tl s") (auto split: if_splits)

lemma lit_LF_opt_CR_shorter:
  "lit_LF (opt_CR s) = Some t \<Longrightarrow> length t < length s"
  by (cases s; cases "tl s") (auto split: if_splits)

lemma blank_line_append:
  "blank_line s = Some r \<Longrightarrow> blank_line (s @ y) = Some (r @ y)"
  by (auto simp: blank_line_def lit_LF_opt_CR_append split: option.splits)

lemma blank_line_shorter:
  "blank_line s = Some r \<Longrightarrow> length r < length s"
  by (fastforce simp: blank_line_def split: option.splits dest: lit_LF_opt_CR_shorter)

lemma partial_blank_line:
  assumes "blank_line x = None" and "blank_line (x @ y) = Some r"
  shows "x \<in> {[], [0x0D], [0x0A], [0x0D, 0x0A], [0x0A, 0x0D], [0x0D, 0x0A, 0x0D]}"
proof (cases x)
  case Nil
  then show ?thesis by simp
next
  case (Cons a x1)
  show ?thesis
  proof (cases x1)
    case Nil
    with Cons assms show ?thesis
      by (cases y; cases "tl y") (auto simp: blank_line_def split: if_splits option.splits)
  next
    case (Cons b x2)
    note c2 = this
    show ?thesis
    proof (cases x2)
      case Nil
      with c2 \<open>x = a # x1\<close> assms show ?thesis
        by (cases y) (auto simp: blank_line_def split: if_splits option.splits)
    next
      case (Cons c x3)
      note c3 = this
      show ?thesis
      proof (cases x3)
        case Nil
        with c3 c2 \<open>x = a # x1\<close> assms show ?thesis
          by (cases y) (auto simp: blank_line_def split: if_splits option.splits)
      next
        case (Cons d x4)
        with c3 c2 \<open>x = a # x1\<close> assms show ?thesis
          by (auto simp: blank_line_def split: if_splits option.splits)
      qed
    qed
  qed
qed

lemma partial_blank_line_split:
  assumes "blank_line x = None" and "blank_line (x @ y) = Some r"
  shows "split_from blank_line piece x = [piece @ x]"
  using partial_blank_line [OF assms]
  by (auto simp: blank_line_def)


lemma split_from_no_match:
  assumes "\<forall>i < length piece. blank_line (drop i piece @ z) = None"
  shows "split_from blank_line pre (piece @ z) = split_from blank_line (pre @ piece) z"
  using assms
proof (induction piece arbitrary: pre)
  case Nil
  then show ?case by simp
next
  case (Cons c cs)
  from Cons.prems have here: "blank_line (c # cs @ z) = None"
    by (metis append_Cons drop0 length_greater_0_conv list.distinct(1))
  have "\<forall>i < length cs. blank_line (drop i cs @ z) = None"
  proof (intro allI impI)
    fix i assume "i < length cs"
    then have "Suc i < length (c # cs)" by simp
    with Cons.prems have "blank_line (drop (Suc i) (c # cs) @ z) = None" by blast
    then show "blank_line (drop i cs @ z) = None" by simp
  qed
  from Cons.IH [OF this, of "pre @ [c]"] here show ?case
    by simp
qed

lemma split_from_append:
  assumes "\<forall>i < length piece. blank_line (drop i piece @ x @ y) = None"
  shows "split_from blank_line piece (x @ y) =
           butlast (split_from blank_line piece x)
             @ split_from blank_line [] (last (split_from blank_line piece x) @ y)"
  using assms
proof (induction "length x" arbitrary: x piece rule: less_induct)
  case less
  show ?case
  proof (cases x)
    case Nil
    with less.prems split_from_no_match [of piece y "[]"] show ?thesis
      by simp
  next
    case (Cons c cs)
    show ?thesis
    proof (cases "blank_line (c # cs)")
      case (Some rest)
      then have shorter: "length rest < length x"
        and app: "blank_line (c # cs @ y) = Some (rest @ y)"
        using blank_line_shorter [OF Some] blank_line_append [OF Some, of y] Cons by simp_all
      have "split_from blank_line [] (rest @ y) =
              butlast (split_from blank_line [] rest)
                @ split_from blank_line [] (last (split_from blank_line [] rest) @ y)"
        by (rule less.hyps [OF shorter]) simp
      with Some app shorter Cons show ?thesis
        by (simp add: butlast_append)
    next
      case None
      show ?thesis
      proof (cases "blank_line (c # cs @ y)")
        case inner: None
        have "\<forall>i < length (piece @ [c]). blank_line (drop i (piece @ [c]) @ cs @ y) = None"
        proof (intro allI impI)
          fix i assume i: "i < length (piece @ [c])"
          show "blank_line (drop i (piece @ [c]) @ cs @ y) = None"
          proof (cases "i < length piece")
            case True
            with less.prems Cons show ?thesis by simp
          next
            case False
            with i have "i = length piece" by simp
            with inner show ?thesis by simp
          qed
        qed
        from less.hyps [OF _ this] Cons None inner show ?thesis
          by simp
      next
        case (Some r)
        have whole: "split_from blank_line piece x = [piece @ x]"
          using partial_blank_line_split [of x y r piece] None Some Cons by simp
        from less.prems split_from_no_match [of piece "x @ y" "[]"]
        have "split_from blank_line [] (piece @ x @ y) = split_from blank_line piece (x @ y)"
          by simp
        with whole show ?thesis by simp
      qed
    qed
  qed
qed

lemma split_append:
  "split blank_line (x @ y) =
     butlast (split blank_line x) @ split blank_line (last (split blank_line x) @ y)"
  using split_from_append [of "[]" x y] by (simp add: split_def)


lemma TextDecoder_decode_append:
  "TextDecoder_decode d (a @ b) =
     (case TextDecoder_decode d a of
        (d1, s1) \<Rightarrow> (case TextDecoder_decode d1 b of (d2, s2) \<Rightarrow> (d2, s1 @ s2)))"
  by (induction a arbitrary: d) (auto split: prod.splits)

lemma for_lines_append:
  "for_lines nts f (ls1 @ ls2) st =
     (case for_lines nts f ls1 st of
        Continue st' \<Rightarrow> for_lines nts f ls2 st'
      | Return st' \<Rightarrow> Return st'
      | Throw e st' \<Rightarrow> Throw e st')"
  by (induction ls1 arbitrary: st) (auto split: step.splits)

lemma for_events_append:
  "for_events nts f (es1 @ es2) st =
     (case for_events nts f es1 st of
        Continue st' \<Rightarrow> for_events nts f es2 st'
      | Return st' \<Rightarrow> Return st'
      | Throw e st' \<Rightarrow> Throw e st')"
  by (induction es1 arbitrary: st) (auto split: step.splits)

lemma read_loop_merge:
  "read_loop nts f (Chunk a # Chunk b # reads) d buffer st =
   read_loop nts f (Chunk (a @ b) # reads) d buffer st"
proof -
  obtain d1 s1 where a: "TextDecoder_decode d a = (d1, s1)"
    by (cases "TextDecoder_decode d a")
  obtain d2 s2 where b: "TextDecoder_decode d1 b = (d2, s2)"
    by (cases "TextDecoder_decode d1 b")
  have ab: "TextDecoder_decode d (a @ b) = (d2, s1 @ s2)"
    by (simp add: TextDecoder_decode_append a b)
  define P1 where "P1 = split blank_line (buffer @ s1)"
  define P2 where "P2 = split blank_line (last P1 @ s2)"
  have P: "split blank_line (buffer @ s1 @ s2) = butlast P1 @ P2"
    using split_append [of "buffer @ s1" s2] by (simp add: P1_def P2_def)
  have ne: "P2 \<noteq> []"
    by (simp add: P2_def split_def)
  have bl: "butlast (butlast P1 @ P2) = butlast P1 @ butlast P2"
    and la: "last (butlast P1 @ P2) = last P2"
    using ne by (simp_all add: butlast_append)
  show ?thesis
    by (simp add: a b ab P bl la for_events_append flip: P1_def P2_def split: step.splits)
qed

lemma read_loop_concat:
  "read_loop nts f (map Chunk (c # cs)) d buffer st =
   read_loop nts f [Chunk (concat (c # cs))] d buffer st"
proof (induction cs arbitrary: c)
  case Nil
  then show ?case by simp
next
  case (Cons c' cs)
  have "read_loop nts f (map Chunk (c # c' # cs)) d buffer st =
        read_loop nts f (map Chunk ((c @ c') # cs)) d buffer st"
    unfolding list.map by (rule read_loop_merge)
  also have "\<dots> = read_loop nts f [Chunk (concat ((c @ c') # cs))] d buffer st"
    by (rule Cons.IH)
  finally show ?case by simp
qed

lemma read_loop_empty_chunk:
  "read_loop nts f [Chunk []] d [] st = read_loop nts f [] d [] st"
  by (simp add: split_def)

lemma read_loop_chunking:
  "read_loop nts f (map Chunk cs) d [] st = read_loop nts f [Chunk (concat cs)] d [] st"
proof (cases cs)
  case Nil
  then show ?thesis by (simp only: list.map concat.simps read_loop_empty_chunk)
next
  case (Cons c cs')
  then show ?thesis by (simp only: read_loop_concat)
qed

lemma handle_line_sentinel:
  assumes "startsWith line (js ''data:'')"
    and "trim (slice_from (length (js ''data:'')) line) = js ''[DONE]''"
  shows "handle_line nts f line st = Return st"
  using assms by (simp add: handle_line_def)

lemma read_loop_sentinel:
  assumes "TextDecoder_decode decoder bytes = (decoder', decoded)"
    and "split blank_line (buffer @ decoded) = events_before @ [event] @ events_after @ [rest]"
    and "for_events nts f events_before st = Continue st1"
    and "split line_break event = lines_before @ [line] @ lines_after"
    and "for_lines nts f lines_before st1 = Continue st2"
    and "startsWith line (js ''data:'')"
    and "trim (slice_from (length (js ''data:'')) line) = js ''[DONE]''"
  shows "read_loop nts f (Chunk bytes # reads) decoder buffer st = Cancelled st2"
proof -
  have line: "for_lines nts f (lines_before @ [line] @ lines_after) st1 = Return st2"
    using assms(5) handle_line_sentinel [OF assms(6,7), of nts f st2] by (simp add: for_lines_append)
  have "butlast (events_before @ [event] @ events_after @ [rest])
      = events_before @ [event] @ events_after"
    by (simp add: butlast_append)
  moreover have "for_events nts f (events_before @ [event] @ events_after) st = Return st2"
    using assms(3,4) line by (simp add: for_events_append)
  ultimately show ?thesis
    using assms(1,2) by simp
qed

section \<open>The end-of-stream sentinel\<close>

text \<open>
  C1. On the wire input of three events, the texts Hel and lo and then the sentinel, the
  callback is run on Hel and on lo and the call ends with the reader cancelled; on the
  sentinel as first event it is run on nothing. In general a line whose payload, after
  the prefix \<open>data:\<close> is removed and the rest trimmed, is \<open>[DONE]\<close> makes the call return at
  once: no fragment for that line, nothing run for the lines and events after it nor for
  the rest of the buffer and the reads that remain, and the reader cancelled.
\<close>

theorem sentinel_ends_the_stream:
  "chatWithLLM nts record_chunk
     (Response \<lparr>status = 200, body = Some [Chunk (ascii
        ''data: {\"text\":\"Hel\"}\<newline>\<newline>data: {\"text\":\"lo\"}\<newline>\<newline>data: [DONE]\<newline>\<newline>'')]\<rparr>) []
     = Cancelled [js ''Hel'', js ''lo'']
   \<and> chatWithLLM nts record_chunk
       (Response \<lparr>status = 200, body = Some [Chunk (ascii ''data: [DONE]\<newline>\<newline>'')]\<rparr>) []
     = Cancelled []
   \<and> (\<forall>line st.
         startsWith line (js ''data:'')
         \<and> trim (slice_from (length (js ''data:'')) line) = js ''[DONE]''
         \<longrightarrow> handle_line nts onChunk line st = Return st)
   \<and> (\<forall>decoder bytes decoder' decoded buffer events_before event events_after rest
         lines_before line lines_after st st1 st2 reads.
         TextDecoder_decode decoder bytes = (decoder', decoded)
         \<and> split blank_line (buffer @ decoded) = events_before @ [event] @ events_after @ [rest]
         \<and> for_events nts onChunk events_before st = Continue st1
         \<and> split line_break event = lines_before @ [line] @ lines_after
         \<and> for_lines nts onChunk lines_before st1 = Continue st2
         \<and> startsWith line (js ''data:'')
         \<and> trim (slice_from (length (js ''data:'')) line) = js ''[DONE]''
         \<longrightarrow> read_loop nts onChunk (Chunk bytes # reads) decoder buffer st = Cancelled st2)"
proof (intro conjI allI impI)
  show "chatWithLLM nts record_chunk
     (Response \<lparr>status = 200, body = Some [Chunk (ascii
        ''data: {\"text\":\"Hel\"}\<newline>\<newline>data: {\"text\":\"lo\"}\<newline>\<newline>data: [DONE]\<newline>\<newline>'')]\<rparr>) []
     = Cancelled [js ''Hel'', js ''lo'']"
    by (simp add: decoder_eval)
  show "chatWithLLM nts record_chunk
       (Response \<lparr>status = 200, body = Some [Chunk (ascii ''data: [DONE]\<newline>\<newline>'')]\<rparr>) []
     = Cancelled []"
    by (simp add: decoder_eval)
next
  fix line :: jsstring and st :: 'a
  assume "startsWith line (js ''data:'')
         \<and> trim (slice_from (length (js ''data:'')) line) = js ''[DONE]''"
  then show "handle_line nts onChunk line st = Return st"
    by (simp add: handle_line_sentinel)
next
  fix decoder bytes decoder' decoded buffer events_before event events_after rest
    lines_before line lines_after and st st1 st2 :: 'a and reads
  assume "TextDecoder_decode decoder bytes = (decoder', decoded)
         \<and> split blank_line (buffer @ decoded) = events_before @ [event] @ events_after @ [rest]
         \<and> for_events nts onChunk events_before st = Continue st1
         \<and> split line_break event = lines_before @ [line] @ lines_after
         \<and> for_lines nts onChunk lines_before st1 = Continue st2
         \<and> startsWith line (js ''data:'')
         \<and> trim (slice_from (length (js ''data:'')) line) = js ''[DONE]''"
  then show "read_loop nts onChunk (Chunk bytes # reads) decoder buffer st = Cancelled st2"
    by (intro read_loop_sentinel) blast+
qed


theorem sentinel_ends_the_stream_witness:
  "read_loop id record_chunk
     [Chunk (ascii ''data: {\"text\":\"Hel\"}\<newline>\<newline>data: [DONE]\<newline>data: {\"text\":\"lo\"}\<newline>\<newline>data: {\"text\":\"x\"}\<newline>\<newline>data:''),
      Chunk (ascii '' y\<newline>\<newline>'')]
     new_TextDecoder [] []
   = Cancelled [js ''Hel'']"
proof -
  note general = sentinel_ends_the_stream [of id record_chunk, THEN conjunct2, THEN conjunct2,
      THEN conjunct2, rule_format]
  show ?thesis
    by (rule general [where decoder' = "new_TextDecoder\<lparr>BOM_seen := True\<rparr>"
          and decoded = "js ''data: {\"text\":\"Hel\"}\<newline>\<newline>data: [DONE]\<newline>data: {\"text\":\"lo\"}\<newline>\<newline>data: {\"text\":\"x\"}\<newline>\<newline>data:''"
          and events_before = "[js ''data: {\"text\":\"Hel\"}'']"
          and event = "js ''data: [DONE]\<newline>data: {\"text\":\"lo\"}''"
          and events_after = "[js ''data: {\"text\":\"x\"}'']"
          and rest = "js ''data:''"
          and lines_before = "[]"
          and line = "js ''data: [DONE]''"
          and lines_after = "[js ''data: {\"text\":\"lo\"}'']"
          and ?st1.0 = "[js ''Hel'']"])
      (simp add: decoder_eval)
qed

text \<open>
  C3. A payload whose text field is the array with the single element \<open>[DONE]\<close> does not
  end the stream. The comparison \<open>msg.text === "[DONE]"\<close> is false for an array, the test
  for the array form stands inside that branch and its value is dropped, so the array is
  joined and emitted as the fragment \<open>[DONE]\<close>, and the events after it are decoded.
\<close>

theorem array_form_sentinel_is_emitted:
  "chatWithLLM nts record_chunk
     (Response \<lparr>status = 200, body = Some [Chunk (ascii
        ''data: {\"text\":[\"[DONE]\"]}\<newline>\<newline>data: {\"text\":\"more\"}\<newline>\<newline>'')]\<rparr>) []
   = Done [js ''[DONE]'', js ''more'']"
  by (simp add: decoder_eval)


section \<open>Payloads that do not parse\<close>

lemma handle_line_parse_failure:
  assumes "startsWith line (js ''data:'')"
    and "raw = trim (slice_from (length (js ''data:'')) line)"
    and "raw \<noteq> js ''[DONE]''"
    and "JSON_parse raw = None"
  shows "handle_line nts f line st = Continue (f raw st)"
  using assms by (simp add: handle_line_def)

text \<open>
  C4. A payload line that is not the sentinel and whose payload \<open>JSON.parse\<close> rejects gives
  the payload itself as the fragment and the loop goes on: with the lines after it in
  the same event, and with the events after it. The event \<open>data: not-json\<close> gives the
  fragment \<open>not-json\<close>, and the events that follow it are decoded.
\<close>

theorem parse_failure_falls_back_to_raw:
  "(\<forall>line raw st.
      startsWith line (js ''data:'')
      \<and> raw = trim (slice_from (length (js ''data:'')) line)
      \<and> raw \<noteq> js ''[DONE]''
      \<and> JSON_parse raw = None
      \<longrightarrow> handle_line nts onChunk line st = Continue (onChunk raw st)
        \<and> (\<forall>lines_before lines_after st0.
               for_lines nts onChunk lines_before st0 = Continue st
               \<longrightarrow> for_lines nts onChunk (lines_before @ [line] @ lines_after) st0
                   = for_lines nts onChunk lines_after (onChunk raw st))
        \<and> (\<forall>event lines_before events st0.
               split line_break event = lines_before @ [line]
               \<and> for_lines nts onChunk lines_before st0 = Continue st
               \<longrightarrow> for_events nts onChunk (event # events) st0
                   = for_events nts onChunk events (onChunk raw st)))
   \<and> chatWithLLM nts record_chunk
       (Response \<lparr>status = 200, body = Some [Chunk (ascii ''data: not-json\<newline>\<newline>'')]\<rparr>) []
     = Done [js ''not-json'']
   \<and> chatWithLLM nts record_chunk
       (Response \<lparr>status = 200, body = Some
          [Chunk (ascii ''data: not-json\<newline>data: {\"text\":\"a\"}\<newline>\<newline>''),
           Chunk (ascii ''data: {\"text\":\"b\"}\<newline>\<newline>'')]\<rparr>) []
     = Done [js ''not-json'', js ''a'', js ''b'']"
proof (intro conjI allI impI)
  fix line raw :: jsstring and st :: 'a
  assume h: "startsWith line (js ''data:'')
      \<and> raw = trim (slice_from (length (js ''data:'')) line)
      \<and> raw \<noteq> js ''[DONE]''
      \<and> JSON_parse raw = None"
  then have one: "handle_line nts onChunk line st = Continue (onChunk raw st)"
    by (intro handle_line_parse_failure) blast+
  then show "handle_line nts onChunk line st = Continue (onChunk raw st)" .
  {
    fix lines_before lines_after :: "jsstring list" and st0 :: 'a
    assume "for_lines nts onChunk lines_before st0 = Continue st"
    then show "for_lines nts onChunk (lines_before @ [line] @ lines_after) st0
        = for_lines nts onChunk lines_after (onChunk raw st)"
      by (simp add: for_lines_append one)
  }
  {
    fix event :: jsstring and lines_before events :: "jsstring list" and st0 :: 'a
    assume "split line_break event = lines_before @ [line]
        \<and> for_lines nts onChunk lines_before st0 = Continue st"
    then show "for_events nts onChunk (event # events) st0
        = for_events nts onChunk events (onChunk raw st)"
      by (simp add: for_lines_append one)
  }
next
  show "chatWithLLM nts record_chunk
       (Response \<lparr>status = 200, body = Some [Chunk (ascii ''data: not-json\<newline>\<newline>'')]\<rparr>) []
     = Done [js ''not-json'']"
    by (simp add: decoder_eval)
  show "chatWithLLM nts record_chunk
       (Response \<lparr>status = 200, body = Some
          [Chunk (ascii ''data: not-json\<newline>data: {\"text\":\"a\"}\<newline>\<newline>''),
           Chunk (ascii ''data: {\"text\":\"b\"}\<newline>\<newline>'')]\<rparr>) []
     = Done [js ''not-json'', js ''a'', js ''b'']"
    by (simp add: decoder_eval)
qed

theorem parse_failure_falls_back_to_raw_witness:
  "handle_line id record_chunk (js ''data: not-json'') [js ''before''] =
     Continue [js ''before'', js ''not-json'']
   \<and> for_events id record_chunk
       [js ''data: {\"text\":\"a\"}\<newline>data: not-json'', js ''data: {\"text\":\"b\"}''] []
     = Continue [js ''a'', js ''not-json'', js ''b'']"
proof -
  have h: "startsWith (js ''data: not-json'') (js ''data:'')
      \<and> js ''not-json'' = trim (slice_from (length (js ''data:'')) (js ''data: not-json''))
      \<and> js ''not-json'' \<noteq> js ''[DONE]''
      \<and> JSON_parse (js ''not-json'') = None"
    by (simp add: decoder_eval)
  note general = parse_failure_falls_back_to_raw [of id record_chunk, THEN conjunct1, rule_format]
  have a: "handle_line id record_chunk (js ''data: not-json'') [js ''before''] =
     Continue [js ''before'', js ''not-json'']"
    using general [OF h, of "[js ''before'']", THEN conjunct1] by (simp add: record_chunk_def)
  have "for_events id record_chunk
       [js ''data: {\"text\":\"a\"}\<newline>data: not-json'', js ''data: {\"text\":\"b\"}''] []
     = for_events id record_chunk [js ''data: {\"text\":\"b\"}'']
         (record_chunk (js ''not-json'') [js ''a''])"
    by (rule general [OF h, of "[js ''a'']", THEN conjunct2, THEN conjunct2, rule_format,
          where lines_before = "[js ''data: {\"text\":\"a\"}'']"])
      (simp add: decoder_eval)
  also have "\<dots> = Continue [js ''a'', js ''not-json'', js ''b'']"
    by (simp add: decoder_eval)
  finally show ?thesis
    using a by simp
qed


section \<open>The text field of a parsed payload\<close>






section \<open>The fragments do not depend on the read boundaries\<close>

text \<open>
  C10. Two sequences of read chunks with the same concatenation give the same call of
  \<open>chatWithLLM\<close>: the callback is run on the same fragments in the same order and the
  call ends the same way, whatever the callback and its state are.
\<close>

theorem chunking_invariance:
  assumes "concat chunks1 = concat chunks2"
  shows "chatWithLLM nts onChunk (Response \<lparr>status = s, body = Some (map Chunk chunks1)\<rparr>) st
       = chatWithLLM nts onChunk (Response \<lparr>status = s, body = Some (map Chunk chunks2)\<rparr>) st"
proof -
  have "read_loop nts onChunk (map Chunk chunks1) new_TextDecoder [] st
      = read_loop nts onChunk [Chunk (concat chunks1)] new_TextDecoder [] st"
    by (rule read_loop_chunking)
  also have "\<dots> = read_loop nts onChunk [Chunk (concat chunks2)] new_TextDecoder [] st"
    by (simp only: assms)
  also have "\<dots> = read_loop nts onChunk (map Chunk chunks2) new_TextDecoder [] st"
    by (rule read_loop_chunking [symmetric])
  finally show ?thesis
    by (simp add: chatWithLLM_def ok_def)
qed

theorem chunking_invariance_witness:
  "chatWithLLM id record_chunk
     (Response \<lparr>status = 200, body = Some (map Chunk
        [ascii ''data: {\"te'', ascii ''xt\":\"Hel\"}\<newline>'', ascii ''\<newline>data: [DO'',
         ascii ''NE]\<newline>\<newline>''])\<rparr>) []
   = Cancelled [js ''Hel'']"
proof -
  have "concat [ascii ''data: {\"te'', ascii ''xt\":\"Hel\"}\<newline>'', ascii ''\<newline>data: [DO'',
          ascii ''NE]\<newline>\<newline>'']
      = concat [ascii ''data: {\"text\":\"Hel\"}\<newline>\<newline>data: [DONE]\<newline>\<newline>'']"
    by (simp add: ascii_def)
  from chunking_invariance [OF this, of id record_chunk 200 "[]"] show ?thesis
    by (simp add: decoder_eval)
qed

section \<open>A character split across two reads\<close>

text \<open>
  The decoder of \<open>TextDecoder("utf-8")\<close>, run on the bytes of one character: the lead byte
  sets the number of bytes needed and the bounds of the next byte, each continuation byte
  adds six bits, and the last one emits the code point and returns the decoder to the
  state between characters.
\<close>

lemma decode_one:
  "TextDecoder_decode d [b] =
     (case utf8_handler d b of (d1, cps) \<Rightarrow> serialize d1 cps)"
  by (simp split: prod.splits)

lemma lead_mod:
  "a < 32 \<Longrightarrow> (192 + a) mod 32 = (a::nat)"
  "a < 16 \<Longrightarrow> (224 + a) mod 16 = (a::nat)"
  "a < 8 \<Longrightarrow> (240 + a) mod 8 = (a::nat)"
  "r < 64 \<Longrightarrow> (128 + r) mod 64 = (r::nat)"
  using mod_mult_self2 [of a 32 6] mod_mult_self2 [of a 16 14] mod_mult_self2 [of a 8 30]
    mod_mult_self2 [of r 64 2]
  by (simp_all add: add.commute)


lemma handler_lead2:
  assumes "2 \<le> a" and "a < 32"
  shows "utf8_handler \<lparr>code_point = c0, bytes_seen = 0, bytes_needed = 0, lower_boundary = 0x80,
            upper_boundary = 0xBF, BOM_seen = bom\<rparr> (0xC0 + a)
       = (\<lparr>code_point = a, bytes_seen = 0, bytes_needed = 1, lower_boundary = 0x80,
            upper_boundary = 0xBF, BOM_seen = bom\<rparr>, [])"
  using assms by (simp add: utf8_handler_def lead_byte_def lead_mod)

lemma handler_lead3:
  assumes "a < 16"
  shows "utf8_handler \<lparr>code_point = c0, bytes_seen = 0, bytes_needed = 0, lower_boundary = 0x80,
            upper_boundary = 0xBF, BOM_seen = bom\<rparr> (0xE0 + a)
       = (\<lparr>code_point = a, bytes_seen = 0, bytes_needed = 2,
            lower_boundary = (if a = 0 then 0xA0 else 0x80),
            upper_boundary = (if a = 13 then 0x9F else 0xBF), BOM_seen = bom\<rparr>, [])"
  using assms by (simp add: utf8_handler_def lead_byte_def lead_mod)

lemma handler_lead4:
  assumes "a < 5"
  shows "utf8_handler \<lparr>code_point = c0, bytes_seen = 0, bytes_needed = 0, lower_boundary = 0x80,
            upper_boundary = 0xBF, BOM_seen = bom\<rparr> (0xF0 + a)
       = (\<lparr>code_point = a, bytes_seen = 0, bytes_needed = 3,
            lower_boundary = (if a = 0 then 0x90 else 0x80),
            upper_boundary = (if a = 4 then 0x8F else 0xBF), BOM_seen = bom\<rparr>, [])"
  using assms by (simp add: utf8_handler_def lead_byte_def lead_mod)

lemma handler_continue:
  assumes "lo \<le> 0x80 + r" and "0x80 + r \<le> hi" and "r < 64" and "Suc seen < needed"
  shows "utf8_handler \<lparr>code_point = c, bytes_seen = seen, bytes_needed = needed,
            lower_boundary = lo, upper_boundary = hi, BOM_seen = bom\<rparr> (0x80 + r)
       = (\<lparr>code_point = c * 64 + r, bytes_seen = Suc seen, bytes_needed = needed,
            lower_boundary = 0x80, upper_boundary = 0xBF, BOM_seen = bom\<rparr>, [])"
  using assms by (simp add: utf8_handler_def lead_mod)

lemma handler_last:
  assumes "lo \<le> 0x80 + r" and "0x80 + r \<le> hi" and "r < 64" and "Suc seen = needed"
  shows "utf8_handler \<lparr>code_point = c, bytes_seen = seen, bytes_needed = needed,
            lower_boundary = lo, upper_boundary = hi, BOM_seen = bom\<rparr> (0x80 + r)
       = (\<lparr>code_point = 0, bytes_seen = 0, bytes_needed = 0,
            lower_boundary = 0x80, upper_boundary = 0xBF, BOM_seen = bom\<rparr>, [c * 64 + r])"
  using assms by (auto simp: utf8_handler_def lead_mod reset_sequence_def)


lemma serialize_state:
  "fst (serialize d cps) = d\<lparr>BOM_seen := (BOM_seen d \<or> cps \<noteq> [])\<rparr>"
proof (induction cps arbitrary: d)
  case Nil
  then show ?case by simp
next
  case (Cons cp cps)
  show ?case
    by (simp add: Cons.IH case_prod_beta)
qed

lemma serialize_fields:
  "code_point (fst (serialize d cps)) = code_point d"
  "bytes_seen (fst (serialize d cps)) = bytes_seen d"
  "bytes_needed (fst (serialize d cps)) = bytes_needed d"
  "lower_boundary (fst (serialize d cps)) = lower_boundary d"
  "upper_boundary (fst (serialize d cps)) = upper_boundary d"
  by (simp_all add: serialize_state)
lemma utf8_handler_between_characters:
  assumes "bytes_needed d = 0 \<longrightarrow>
      bytes_seen d = 0 \<and> lower_boundary d = 0x80 \<and> upper_boundary d = 0xBF"
    and "bytes_needed (fst (utf8_handler d b)) = 0"
  shows "bytes_seen (fst (utf8_handler d b)) = 0
       \<and> lower_boundary (fst (utf8_handler d b)) = 0x80
       \<and> upper_boundary (fst (utf8_handler d b)) = 0xBF"
  using assms
  by (auto simp: utf8_handler_def lead_byte_def reset_sequence_def Let_def split: if_splits)

lemma decode_between_characters:
  assumes "TextDecoder_decode d0 bs = (d, s)"
    and "bytes_needed d0 = 0 \<longrightarrow>
      bytes_seen d0 = 0 \<and> lower_boundary d0 = 0x80 \<and> upper_boundary d0 = 0xBF"
    and "bytes_needed d = 0"
  shows "bytes_seen d = 0 \<and> lower_boundary d = 0x80 \<and> upper_boundary d = 0xBF"
  using assms
proof (induction bs arbitrary: d0 s)
  case Nil
  then show ?case by simp
next
  case (Cons b bs)
  obtain d1 cps where h: "utf8_handler d0 b = (d1, cps)"
    by (cases "utf8_handler d0 b")
  obtain d2 out where se: "serialize d1 cps = (d2, out)"
    by (cases "serialize d1 cps")
  obtain d3 later where de: "TextDecoder_decode d2 bs = (d3, later)"
    by (cases "TextDecoder_decode d2 bs")
  from Cons.prems(1) h se de have d3: "d3 = d" by simp
  have d1: "bytes_needed d1 = 0 \<longrightarrow>
      bytes_seen d1 = 0 \<and> lower_boundary d1 = 0x80 \<and> upper_boundary d1 = 0xBF"
    using utf8_handler_between_characters [OF Cons.prems(2), of b] h by simp
  have "bytes_needed d2 = 0 \<longrightarrow>
      bytes_seen d2 = 0 \<and> lower_boundary d2 = 0x80 \<and> upper_boundary d2 = 0xBF"
    using d1 serialize_fields [of d1 cps] se by simp
  from Cons.IH [OF de [unfolded d3] this Cons.prems(3)] show ?case .
qed


lemma decode_split:
  assumes "snd (TextDecoder_decode d p) = []"
  shows "TextDecoder_decode (fst (TextDecoder_decode d p)) q = TextDecoder_decode d (p @ q)"
proof -
  obtain d1 s1 where p: "TextDecoder_decode d p = (d1, s1)"
    by (cases "TextDecoder_decode d p")
  with assms have "s1 = []" by simp
  with p show ?thesis
    by (simp add: TextDecoder_decode_append split: prod.splits)
qed

lemma decode_two_bytes:
  assumes "2 \<le> a" and "a < 32" and "r < 64"
  shows "TextDecoder_decode \<lparr>code_point = c0, bytes_seen = 0, bytes_needed = 0,
            lower_boundary = 0x80, upper_boundary = 0xBF, BOM_seen = bom\<rparr> [0xC0 + a]
       = (\<lparr>code_point = a, bytes_seen = 0, bytes_needed = 1, lower_boundary = 0x80,
            upper_boundary = 0xBF, BOM_seen = bom\<rparr>, [])"
    and "TextDecoder_decode \<lparr>code_point = c0, bytes_seen = 0, bytes_needed = 0,
            lower_boundary = 0x80, upper_boundary = 0xBF, BOM_seen = bom\<rparr> [0xC0 + a, 0x80 + r]
       = (\<lparr>code_point = 0, bytes_seen = 0, bytes_needed = 0, lower_boundary = 0x80,
            upper_boundary = 0xBF, BOM_seen = True\<rparr>,
          if \<not> bom \<and> a * 64 + r = 0xFEFF then [] else utf16 (a * 64 + r))"
  using assms by (simp_all add: handler_lead2 handler_last)


lemma decode_three_bytes:
  assumes "a < 16" and "m < 64" and "r < 64"
    and "a = 0 \<longrightarrow> 32 \<le> m" and "a = 13 \<longrightarrow> m < 32"
  shows "TextDecoder_decode \<lparr>code_point = c0, bytes_seen = 0, bytes_needed = 0,
            lower_boundary = 0x80, upper_boundary = 0xBF, BOM_seen = bom\<rparr> [0xE0 + a]
       = (\<lparr>code_point = a, bytes_seen = 0, bytes_needed = 2,
            lower_boundary = (if a = 0 then 0xA0 else 0x80),
            upper_boundary = (if a = 13 then 0x9F else 0xBF), BOM_seen = bom\<rparr>, [])"
    and "TextDecoder_decode \<lparr>code_point = c0, bytes_seen = 0, bytes_needed = 0,
            lower_boundary = 0x80, upper_boundary = 0xBF, BOM_seen = bom\<rparr> [0xE0 + a, 0x80 + m]
       = (\<lparr>code_point = a * 64 + m, bytes_seen = 1, bytes_needed = 2, lower_boundary = 0x80,
            upper_boundary = 0xBF, BOM_seen = bom\<rparr>, [])"
    and "TextDecoder_decode \<lparr>code_point = c0, bytes_seen = 0, bytes_needed = 0,
            lower_boundary = 0x80, upper_boundary = 0xBF, BOM_seen = bom\<rparr>
            [0xE0 + a, 0x80 + m, 0x80 + r]
       = (\<lparr>code_point = 0, bytes_seen = 0, bytes_needed = 0, lower_boundary = 0x80,
            upper_boundary = 0xBF, BOM_seen = True\<rparr>,
          if \<not> bom \<and> (a * 64 + m) * 64 + r = 0xFEFF then []
          else utf16 ((a * 64 + m) * 64 + r))"
proof -
  have second: "utf8_handler \<lparr>code_point = a, bytes_seen = 0, bytes_needed = 2,
            lower_boundary = (if a = 0 then 0xA0 else 0x80),
            upper_boundary = (if a = 13 then 0x9F else 0xBF), BOM_seen = bom\<rparr> (0x80 + m)
       = (\<lparr>code_point = a * 64 + m, bytes_seen = Suc 0, bytes_needed = 2,
            lower_boundary = 0x80, upper_boundary = 0xBF, BOM_seen = bom\<rparr>, [])"
    using assms by (intro handler_continue) auto
  have third: "utf8_handler \<lparr>code_point = a * 64 + m, bytes_seen = Suc 0, bytes_needed = 2,
            lower_boundary = 0x80, upper_boundary = 0xBF, BOM_seen = bom\<rparr> (0x80 + r)
       = (\<lparr>code_point = 0, bytes_seen = 0, bytes_needed = 0,
            lower_boundary = 0x80, upper_boundary = 0xBF, BOM_seen = bom\<rparr>,
          [(a * 64 + m) * 64 + r])"
    using assms by (intro handler_last) auto
  show "TextDecoder_decode \<lparr>code_point = c0, bytes_seen = 0, bytes_needed = 0,
            lower_boundary = 0x80, upper_boundary = 0xBF, BOM_seen = bom\<rparr> [0xE0 + a]
       = (\<lparr>code_point = a, bytes_seen = 0, bytes_needed = 2,
            lower_boundary = (if a = 0 then 0xA0 else 0x80),
            upper_boundary = (if a = 13 then 0x9F else 0xBF), BOM_seen = bom\<rparr>, [])"
    using assms(1) by (simp add: handler_lead3)
  show "TextDecoder_decode \<lparr>code_point = c0, bytes_seen = 0, bytes_needed = 0,
            lower_boundary = 0x80, upper_boundary = 0xBF, BOM_seen = bom\<rparr> [0xE0 + a, 0x80 + m]
       = (\<lparr>code_point = a * 64 + m, bytes_seen = 1, bytes_needed = 2, lower_boundary = 0x80,
            upper_boundary = 0xBF, BOM_seen = bom\<rparr>, [])"
    using assms(1) by (simp add: handler_lead3 second)
  show "TextDecoder_decode \<lparr>code_point = c0, bytes_seen = 0, bytes_needed = 0,
            lower_boundary = 0x80, upper_boundary = 0xBF, BOM_seen = bom\<rparr>
            [0xE0 + a, 0x80 + m, 0x80 + r]
       = (\<lparr>code_point = 0, bytes_seen = 0, bytes_needed = 0, lower_boundary = 0x80,
            upper_boundary = 0xBF, BOM_seen = True\<rparr>,
          if \<not> bom \<and> (a * 64 + m) * 64 + r = 0xFEFF then []
          else utf16 ((a * 64 + m) * 64 + r))"
    using assms(1) by (simp add: handler_lead3 second third)
qed


lemma decode_then:
  assumes "TextDecoder_decode d p = (d1, [])" and "TextDecoder_decode d1 q = (d2, out)"
  shows "TextDecoder_decode d (p @ q) = (d2, out)"
  using assms by (simp add: TextDecoder_decode_append)

lemma decode_four_bytes:
  assumes "a < 5" and "m1 < 64" and "m < 64" and "r < 64"
    and "a = 0 \<longrightarrow> 16 \<le> m1" and "a = 4 \<longrightarrow> m1 < 16"
  shows "TextDecoder_decode \<lparr>code_point = c0, bytes_seen = 0, bytes_needed = 0,
            lower_boundary = 0x80, upper_boundary = 0xBF, BOM_seen = bom\<rparr> [0xF0 + a]
       = (\<lparr>code_point = a, bytes_seen = 0, bytes_needed = 3,
            lower_boundary = (if a = 0 then 0x90 else 0x80),
            upper_boundary = (if a = 4 then 0x8F else 0xBF), BOM_seen = bom\<rparr>, [])"
    and "TextDecoder_decode \<lparr>code_point = c0, bytes_seen = 0, bytes_needed = 0,
            lower_boundary = 0x80, upper_boundary = 0xBF, BOM_seen = bom\<rparr> [0xF0 + a, 0x80 + m1]
       = (\<lparr>code_point = a * 64 + m1, bytes_seen = 1, bytes_needed = 3, lower_boundary = 0x80,
            upper_boundary = 0xBF, BOM_seen = bom\<rparr>, [])"
    and "TextDecoder_decode \<lparr>code_point = c0, bytes_seen = 0, bytes_needed = 0,
            lower_boundary = 0x80, upper_boundary = 0xBF, BOM_seen = bom\<rparr>
            [0xF0 + a, 0x80 + m1, 0x80 + m]
       = (\<lparr>code_point = (a * 64 + m1) * 64 + m, bytes_seen = 2, bytes_needed = 3,
            lower_boundary = 0x80, upper_boundary = 0xBF, BOM_seen = bom\<rparr>, [])"
    and "TextDecoder_decode \<lparr>code_point = c0, bytes_seen = 0, bytes_needed = 0,
            lower_boundary = 0x80, upper_boundary = 0xBF, BOM_seen = bom\<rparr>
            [0xF0 + a, 0x80 + m1, 0x80 + m, 0x80 + r]
       = (\<lparr>code_point = 0, bytes_seen = 0, bytes_needed = 0, lower_boundary = 0x80,
            upper_boundary = 0xBF, BOM_seen = True\<rparr>,
          if \<not> bom \<and> ((a * 64 + m1) * 64 + m) * 64 + r = 0xFEFF then []
          else utf16 (((a * 64 + m1) * 64 + m) * 64 + r))"
proof -
  let ?d = "\<lparr>code_point = c0, bytes_seen = 0, bytes_needed = 0,
            lower_boundary = 0x80, upper_boundary = 0xBF, BOM_seen = bom\<rparr>"
  let ?s1 = "\<lparr>code_point = a, bytes_seen = 0, bytes_needed = 3,
            lower_boundary = (if a = 0 then 0x90 else 0x80),
            upper_boundary = (if a = 4 then 0x8F else 0xBF), BOM_seen = bom\<rparr>"
  let ?s2 = "\<lparr>code_point = a * 64 + m1, bytes_seen = Suc 0, bytes_needed = 3,
            lower_boundary = 0x80, upper_boundary = 0xBF, BOM_seen = bom\<rparr>"
  let ?s3 = "\<lparr>code_point = (a * 64 + m1) * 64 + m, bytes_seen = Suc (Suc 0), bytes_needed = 3,
            lower_boundary = 0x80, upper_boundary = 0xBF, BOM_seen = bom\<rparr>"
  have second: "utf8_handler ?s1 (0x80 + m1) = (?s2, [])"
    using assms by (intro handler_continue) auto
  have third: "utf8_handler ?s2 (0x80 + m) = (?s3, [])"
    using assms by (intro handler_continue) auto
  have fourth: "utf8_handler ?s3 (0x80 + r)
       = (\<lparr>code_point = 0, bytes_seen = 0, bytes_needed = 0,
            lower_boundary = 0x80, upper_boundary = 0xBF, BOM_seen = bom\<rparr>,
          [((a * 64 + m1) * 64 + m) * 64 + r])"
    using assms by (intro handler_last) auto
  have p1: "TextDecoder_decode ?d [0xF0 + a] = (?s1, [])"
    using assms(1) by (simp add: handler_lead4)
  have q2: "TextDecoder_decode ?s1 [0x80 + m1] = (?s2, [])"
    by (simp only: decode_one second prod.case serialize.simps)
  have q3: "TextDecoder_decode ?s2 [0x80 + m] = (?s3, [])"
    by (simp only: decode_one third prod.case serialize.simps)
  have q4: "TextDecoder_decode ?s3 [0x80 + r]
       = (\<lparr>code_point = 0, bytes_seen = 0, bytes_needed = 0, lower_boundary = 0x80,
            upper_boundary = 0xBF, BOM_seen = True\<rparr>,
          if \<not> bom \<and> ((a * 64 + m1) * 64 + m) * 64 + r = 0xFEFF then []
          else utf16 (((a * 64 + m1) * 64 + m) * 64 + r))"
    by (simp only: decode_one fourth prod.case) simp
  have p2: "TextDecoder_decode ?d ([0xF0 + a] @ [0x80 + m1]) = (?s2, [])"
    by (rule decode_then [OF p1 q2])
  have p3: "TextDecoder_decode ?d (([0xF0 + a] @ [0x80 + m1]) @ [0x80 + m]) = (?s3, [])"
    by (rule decode_then [OF p2 q3])
  note p4 = decode_then [OF p3 q4]
  show "TextDecoder_decode ?d [0xF0 + a] = (?s1, [])"
    by (rule p1)
  show "TextDecoder_decode ?d [0xF0 + a, 0x80 + m1]
       = (\<lparr>code_point = a * 64 + m1, bytes_seen = 1, bytes_needed = 3, lower_boundary = 0x80,
            upper_boundary = 0xBF, BOM_seen = bom\<rparr>, [])"
    using p2 by simp
  show "TextDecoder_decode ?d [0xF0 + a, 0x80 + m1, 0x80 + m]
       = (\<lparr>code_point = (a * 64 + m1) * 64 + m, bytes_seen = 2, bytes_needed = 3,
            lower_boundary = 0x80, upper_boundary = 0xBF, BOM_seen = bom\<rparr>, [])"
    using p3 by simp
  show "TextDecoder_decode ?d [0xF0 + a, 0x80 + m1, 0x80 + m, 0x80 + r]
       = (\<lparr>code_point = 0, bytes_seen = 0, bytes_needed = 0, lower_boundary = 0x80,
            upper_boundary = 0xBF, BOM_seen = True\<rparr>,
          if \<not> bom \<and> ((a * 64 + m1) * 64 + m) * 64 + r = 0xFEFF then []
          else utf16 (((a * 64 + m1) * 64 + m) * 64 + r))"
    using p4 by simp
qed

lemma div_4096: "(cp::nat) div 4096 = cp div 64 div 64"
proof -
  have "cp div 4096 = cp div (64 * 64)" by simp
  then show ?thesis by (simp only: div_mult2_eq)
qed

lemma div_262144: "(cp::nat) div 262144 = cp div 64 div 64 div 64"
proof -
  have "cp div 262144 = cp div (64 * 64 * 64)" by simp
  then show ?thesis by (simp only: div_mult2_eq)
qed

lemma two_byte_digits:
  fixes cp :: nat
  assumes "0x80 \<le> cp" and "cp < 0x800"
  shows "2 \<le> cp div 64" and "cp div 64 < 32" and "cp mod 64 < 64"
    and "cp div 64 * 64 + cp mod 64 = cp"
  using assms by (simp_all add: less_eq_div_iff_mult_less_eq div_less_iff_less_mult)

lemma three_byte_digits:
  assumes "0x800 \<le> cp" and "cp < 0x10000" and "is_scalar_value cp"
  shows "cp div 4096 < 16" and "cp div 64 mod 64 < 64" and "cp mod 64 < 64"
    and "cp div 4096 = 0 \<longrightarrow> 32 \<le> cp div 64 mod 64"
    and "cp div 4096 = 13 \<longrightarrow> cp div 64 mod 64 < 32"
    and "(cp div 4096 * 64 + cp div 64 mod 64) * 64 + cp mod 64 = cp"
proof -
  define q1 where "q1 = cp div 64"
  define a where "a = q1 div 64"
  define m where "m = q1 mod 64"
  define r where "r = cp mod 64"
  have cp: "cp = q1 * 64 + r" and q1: "q1 = a * 64 + m" and r: "r < 64" and m: "m < 64"
    by (simp_all add: q1_def a_def m_def r_def)
  have a: "cp div 4096 = a"
    by (simp add: div_4096 a_def q1_def)
  have scalar: "cp < 0xD800 \<or> 0xE000 \<le> cp"
    using assms(3) by (auto simp: is_scalar_value_def)
  have "a < 16" using assms(2) cp q1 by linarith
  moreover have "a = 0 \<longrightarrow> 32 \<le> m" using assms(1) cp q1 r by auto
  moreover have "a = 13 \<longrightarrow> m < 32" using scalar cp q1 r m by auto
  moreover have "(a * 64 + m) * 64 + r = cp" using cp q1 by simp
  ultimately show "cp div 4096 < 16" and "cp div 64 mod 64 < 64" and "cp mod 64 < 64"
    and "cp div 4096 = 0 \<longrightarrow> 32 \<le> cp div 64 mod 64"
    and "cp div 4096 = 13 \<longrightarrow> cp div 64 mod 64 < 32"
    and "(cp div 4096 * 64 + cp div 64 mod 64) * 64 + cp mod 64 = cp"
    unfolding a by (simp_all add: m_def q1_def r_def)
qed

lemma four_byte_digits:
  fixes cp :: nat
  assumes "0x10000 \<le> cp" and "cp \<le> 0x10FFFF"
  shows "cp div 262144 < 5" and "cp div 4096 mod 64 < 64" and "cp div 64 mod 64 < 64"
    and "cp mod 64 < 64"
    and "cp div 262144 = 0 \<longrightarrow> 16 \<le> cp div 4096 mod 64"
    and "cp div 262144 = 4 \<longrightarrow> cp div 4096 mod 64 < 16"
    and "((cp div 262144 * 64 + cp div 4096 mod 64) * 64 + cp div 64 mod 64) * 64 + cp mod 64 = cp"
proof -
  define q1 where "q1 = cp div 64"
  define q2 where "q2 = q1 div 64"
  define a where "a = q2 div 64"
  define m1 where "m1 = q2 mod 64"
  define m where "m = q1 mod 64"
  define r where "r = cp mod 64"
  have cp: "cp = q1 * 64 + r" and q1: "q1 = q2 * 64 + m" and q2: "q2 = a * 64 + m1"
    and r: "r < 64" and m: "m < 64" and m1: "m1 < 64"
    by (simp_all add: q1_def q2_def a_def m1_def m_def r_def)
  have d2: "cp div 4096 = q2" and d3: "cp div 262144 = a"
    by (simp_all add: div_4096 div_262144 a_def q2_def q1_def)
  have "a < 5" using assms(2) cp q1 q2 by linarith
  moreover have "a = 0 \<longrightarrow> 16 \<le> m1" using assms(1) cp q1 q2 r m by auto
  moreover have "a = 4 \<longrightarrow> m1 < 16" using assms(2) cp q1 q2 by auto
  moreover have "((a * 64 + m1) * 64 + m) * 64 + r = cp" using cp q1 q2 by simp
  ultimately show "cp div 262144 < 5" and "cp div 4096 mod 64 < 64" and "cp div 64 mod 64 < 64"
    and "cp mod 64 < 64"
    and "cp div 262144 = 0 \<longrightarrow> 16 \<le> cp div 4096 mod 64"
    and "cp div 262144 = 4 \<longrightarrow> cp div 4096 mod 64 < 16"
    and "((cp div 262144 * 64 + cp div 4096 mod 64) * 64 + cp div 64 mod 64) * 64 + cp mod 64 = cp"
    unfolding d2 d3 by (simp_all add: m1_def m_def q2_def q1_def r_def)
qed


lemma utf8_handler_emits:
  assumes "bytes_needed (fst (utf8_handler d b)) = 0"
  shows "snd (utf8_handler d b) \<noteq> []"
  using assms
  by (auto simp: utf8_handler_def lead_byte_def reset_sequence_def Let_def split: if_splits)

lemma decode_sets_BOM_seen:
  assumes "TextDecoder_decode d0 bs = (d, s)" and "bs \<noteq> []" and "bytes_needed d = 0"
  shows "BOM_seen d"
  using assms
proof (induction bs arbitrary: d0 s)
  case Nil
  then show ?case by simp
next
  case (Cons b bs)
  obtain d1 cps where h: "utf8_handler d0 b = (d1, cps)"
    by (cases "utf8_handler d0 b")
  obtain d2 out where se: "serialize d1 cps = (d2, out)"
    by (cases "serialize d1 cps")
  obtain d3 later where de: "TextDecoder_decode d2 bs = (d3, later)"
    by (cases "TextDecoder_decode d2 bs")
  from Cons.prems(1) h se de have d3: "d3 = d" by simp
  have d2: "d2 = d1\<lparr>BOM_seen := (BOM_seen d1 \<or> cps \<noteq> [])\<rparr>"
    using serialize_state [of d1 cps] se by simp
  show ?case
  proof (cases bs)
    case Nil
    with de d3 have "d = d2" by simp
    with Cons.prems(3) d2 have "bytes_needed d1 = 0" by simp
    with utf8_handler_emits [of d0 b] h have "cps \<noteq> []" by simp
    with d2 \<open>d = d2\<close> show ?thesis by simp
  next
    case (Cons b' bs')
    then have "bs \<noteq> []" by simp
    from Cons.IH [OF de [unfolded d3] this Cons.prems(3)] show ?thesis .
  qed
qed


lemma split_encoding_decodes:
  assumes "is_scalar_value cp" and "0x80 \<le> cp"
    and "0 < k" and "k < length (utf8_encode cp)"
  shows "snd (TextDecoder_decode \<lparr>code_point = c0, bytes_seen = 0, bytes_needed = 0,
            lower_boundary = 0x80, upper_boundary = 0xBF, BOM_seen = bom\<rparr>
            (take k (utf8_encode cp))) = []"
    and "TextDecoder_decode \<lparr>code_point = c0, bytes_seen = 0, bytes_needed = 0,
            lower_boundary = 0x80, upper_boundary = 0xBF, BOM_seen = bom\<rparr> (utf8_encode cp)
       = (\<lparr>code_point = 0, bytes_seen = 0, bytes_needed = 0, lower_boundary = 0x80,
            upper_boundary = 0xBF, BOM_seen = True\<rparr>,
          if \<not> bom \<and> cp = 0xFEFF then [] else utf16 cp)"
proof -
  let ?d = "\<lparr>code_point = c0, bytes_seen = 0, bytes_needed = 0,
            lower_boundary = 0x80, upper_boundary = 0xBF, BOM_seen = bom\<rparr>"
  let ?final = "\<lparr>code_point = 0, bytes_seen = 0, bytes_needed = 0, lower_boundary = 0x80,
            upper_boundary = 0xBF, BOM_seen = True\<rparr>"
  consider (two) "cp < 0x800" | (three) "0x800 \<le> cp" "cp < 0x10000" | (four) "0x10000 \<le> cp"
    by linarith
  then have "snd (TextDecoder_decode ?d (take k (utf8_encode cp))) = []
      \<and> TextDecoder_decode ?d (utf8_encode cp)
          = (?final, if \<not> bom \<and> cp = 0xFEFF then [] else utf16 cp)"
  proof cases
    case two
    have enc: "utf8_encode cp = [0xC0 + cp div 64, 0x80 + cp mod 64]"
      using assms(2) two by (simp add: utf8_encode_def)
    note digits = two_byte_digits [OF assms(2) two]
    note dec = decode_two_bytes [OF digits(1,2,3), of c0 bom, unfolded digits(4)]
    from assms(3,4) enc have "k = 1" by simp
    then show ?thesis
      using dec by (simp add: enc del: TextDecoder_decode.simps)
  next
    case three
    have enc: "utf8_encode cp = [0xE0 + cp div 4096, 0x80 + cp div 64 mod 64, 0x80 + cp mod 64]"
      using three by (simp add: utf8_encode_def)
    note digits = three_byte_digits [OF three assms(1)]
    note dec = decode_three_bytes [OF digits(1,2,3,4,5), of c0 bom, unfolded digits(6)]
    from assms(3,4) enc have "k = 1 \<or> k = 2" by auto
    then show ?thesis
      using dec by (auto simp: enc simp del: TextDecoder_decode.simps)
  next
    case four
    have le: "cp \<le> 0x10FFFF"
      using assms(1) four by (auto simp: is_scalar_value_def)
    have enc: "utf8_encode cp =
        [0xF0 + cp div 262144, 0x80 + cp div 4096 mod 64, 0x80 + cp div 64 mod 64,
         0x80 + cp mod 64]"
      using four by (simp add: utf8_encode_def)
    note digits = four_byte_digits [OF four le]
    note dec = decode_four_bytes [OF digits(1,2,3,4,5,6), of c0 bom, unfolded digits(7)]
    from assms(3,4) enc have "k = 1 \<or> k = 2 \<or> k = 3" by auto
    then show ?thesis
      using dec by (auto simp: enc simp del: TextDecoder_decode.simps)
  qed
  then show "snd (TextDecoder_decode ?d (take k (utf8_encode cp))) = []"
    and "TextDecoder_decode ?d (utf8_encode cp)
          = (?final, if \<not> bom \<and> cp = 0xFEFF then [] else utf16 cp)"
    by simp_all
qed

text \<open>
  C9. A character of two, three or four bytes whose bytes are split between two reads,
  after bytes that end between characters: the first read decodes nothing for the bytes
  of the character it has, the decoder carries them over, and the second read decodes the
  character whole, as its UTF-16 code units, and leaves the decoder between characters.
  The one exception is U+FEFF as the first character of the body, which the decoder drops
  as a byte order mark. The two reads decode what one read of all the bytes decodes, and
  the read loop runs the same on the two reads as on their concatenation.
\<close>

theorem split_character_is_decoded_whole:
  assumes "is_scalar_value cp" and "0x80 \<le> cp"
    and "0 < k" and "k < length (utf8_encode cp)"
    and "TextDecoder_decode new_TextDecoder bytes_before = (d, text_before)"
    and "bytes_needed d = 0"
  shows "snd (TextDecoder_decode d (take k (utf8_encode cp))) = []
       \<and> snd (TextDecoder_decode (fst (TextDecoder_decode d (take k (utf8_encode cp))))
               (drop k (utf8_encode cp)))
           = (if bytes_before = [] \<and> cp = 0xFEFF then [] else utf16 cp)
       \<and> bytes_needed (fst (TextDecoder_decode (fst (TextDecoder_decode d (take k (utf8_encode cp))))
               (drop k (utf8_encode cp)))) = 0
       \<and> TextDecoder_decode (fst (TextDecoder_decode d (take k (utf8_encode cp))))
             (drop k (utf8_encode cp))
           = TextDecoder_decode d (utf8_encode cp)
       \<and> (\<forall>nts onChunk bytes1 bytes2 reads decoder buffer st.
             read_loop nts onChunk
               (Chunk (bytes1 @ take k (utf8_encode cp)) # Chunk (drop k (utf8_encode cp) @ bytes2) # reads)
               decoder buffer st
           = read_loop nts onChunk (Chunk (bytes1 @ utf8_encode cp @ bytes2) # reads)
               decoder buffer st)"
proof -
  have start: "bytes_needed new_TextDecoder = 0 \<longrightarrow>
      bytes_seen new_TextDecoder = 0 \<and> lower_boundary new_TextDecoder = 0x80
      \<and> upper_boundary new_TextDecoder = 0xBF"
    by (simp add: new_TextDecoder_def)
  note idle = decode_between_characters [OF assms(5) start assms(6)]
  obtain c0 bom where d: "d = \<lparr>code_point = c0, bytes_seen = 0, bytes_needed = 0,
      lower_boundary = 0x80, upper_boundary = 0xBF, BOM_seen = bom\<rparr>"
    using idle assms(6) by (cases d) auto
  have bom: "bom \<longleftrightarrow> bytes_before \<noteq> []"
  proof (cases "bytes_before = []")
    case True
    with assms(5) d show ?thesis by (simp add: new_TextDecoder_def)
  next
    case False
    from decode_sets_BOM_seen [OF assms(5) False assms(6)] d False show ?thesis by simp
  qed
  note parts = split_encoding_decodes [OF assms(1-4), of c0 bom, folded d]
  have second: "TextDecoder_decode (fst (TextDecoder_decode d (take k (utf8_encode cp))))
             (drop k (utf8_encode cp))
           = TextDecoder_decode d (utf8_encode cp)"
    using decode_split [OF parts(1), of "drop k (utf8_encode cp)"] by simp
  have merged: "read_loop nts onChunk
               (Chunk (bytes1 @ take k (utf8_encode cp)) # Chunk (drop k (utf8_encode cp) @ bytes2) # reads)
               decoder buffer st
           = read_loop nts onChunk (Chunk (bytes1 @ utf8_encode cp @ bytes2) # reads)
               decoder buffer st"
    for nts and onChunk :: "jsstring \<Rightarrow> 'a \<Rightarrow> 'a" and bytes1 bytes2 reads decoder buffer st
  proof -
    have eq: "bytes1 @ utf8_encode cp @ bytes2
        = (bytes1 @ take k (utf8_encode cp)) @ (drop k (utf8_encode cp) @ bytes2)"
      by (metis append.assoc append_take_drop_id)
    show ?thesis
      unfolding eq by (rule read_loop_merge)
  qed
  from parts(1) second parts(2) bom merged show ?thesis
    by auto
qed

theorem split_character_is_decoded_whole_witness:
  "snd (TextDecoder_decode (fst (TextDecoder_decode new_TextDecoder [0x61])) [0xE2]) = []
   \<and> snd (TextDecoder_decode
       (fst (TextDecoder_decode (fst (TextDecoder_decode new_TextDecoder [0x61])) [0xE2]))
       [0x82, 0xAC]) = [0x20AC]
   \<and> snd (TextDecoder_decode (fst (TextDecoder_decode new_TextDecoder [0x61])) [0xF0, 0x9F]) = []
   \<and> snd (TextDecoder_decode
       (fst (TextDecoder_decode (fst (TextDecoder_decode new_TextDecoder [0x61])) [0xF0, 0x9F]))
       [0x98, 0x80]) = [0xD83D, 0xDE00]"
proof -
  obtain d s where before: "TextDecoder_decode new_TextDecoder [0x61] = (d, s)"
    by (cases "TextDecoder_decode new_TextDecoder [0x61]")
  then have needed: "bytes_needed d = 0"
    by (auto simp: new_TextDecoder_def utf8_handler_def lead_byte_def serialize_fields(3)
        split: prod.splits dest!: arg_cong [where f = fst])
  have euro: "utf8_encode 0x20AC = [0xE2, 0x82, 0xAC]"
    and face: "utf8_encode 0x1F600 = [0xF0, 0x9F, 0x98, 0x80]"
    by (simp_all add: utf8_encode_def)
  have e: "is_scalar_value 0x20AC" "0x80 \<le> (0x20AC::nat)" "0 < (1::nat)"
      "1 < length (utf8_encode 0x20AC)"
    by (simp_all add: is_scalar_value_def euro)
  have f: "is_scalar_value 0x1F600" "0x80 \<le> (0x1F600::nat)" "0 < (2::nat)"
      "2 < length (utf8_encode 0x1F600)"
    by (simp_all add: is_scalar_value_def face)
  note euro_split = split_character_is_decoded_whole [OF e before needed]
  note face_split = split_character_is_decoded_whole [OF f before needed]
  from euro_split [THEN conjunct1] euro_split [THEN conjunct2, THEN conjunct1]
  have a: "snd (TextDecoder_decode d [0xE2]) = []
      \<and> snd (TextDecoder_decode (fst (TextDecoder_decode d [0xE2])) [0x82, 0xAC]) = [0x20AC]"
    by (simp add: euro utf16_def del: TextDecoder_decode.simps)
  from face_split [THEN conjunct1] face_split [THEN conjunct2, THEN conjunct1]
  have b: "snd (TextDecoder_decode d [0xF0, 0x9F]) = []
      \<and> snd (TextDecoder_decode (fst (TextDecoder_decode d [0xF0, 0x9F])) [0x98, 0x80])
          = [0xD83D, 0xDE00]"
    by (simp add: face utf16_def numeral_2_eq_2 del: TextDecoder_decode.simps)
  from a b show ?thesis
    by (simp add: before del: TextDecoder_decode.simps)
qed

text \<open>
  The byte order mark is the one character this is not so for: at the very start of the
  body the decoder drops U+FEFF, whether its three bytes come in one read or in two.
\<close>

theorem byte_order_mark_counterexample:
  "is_scalar_value 0xFEFF
   \<and> utf8_encode 0xFEFF = [0xEF, 0xBB, 0xBF]
   \<and> utf16 0xFEFF = [0xFEFF]
   \<and> snd (TextDecoder_decode new_TextDecoder [0xEF, 0xBB]) = []
   \<and> snd (TextDecoder_decode (fst (TextDecoder_decode new_TextDecoder [0xEF, 0xBB])) [0xBF]) = []
   \<and> snd (TextDecoder_decode new_TextDecoder [0xEF, 0xBB, 0xBF]) = []
   \<and> snd (TextDecoder_decode (fst (TextDecoder_decode (fst (TextDecoder_decode new_TextDecoder [0x61]))
         [0xEF, 0xBB])) [0xBF]) = [0xFEFF]"
  by (simp add: decoder_eval is_scalar_value_def utf8_encode_def)

section \<open>Folding fragments into the tail message\<close>

lemma onChunk_updater_tail:
  assumes "message_state \<noteq> []" and "role (last message_state) = Assistant"
  shows "onChunk_updater chunk message_state =
           butlast message_state
             @ [(last message_state)\<lparr>content := content (last message_state) @ chunk\<rparr>]"
  using assms by (simp add: onChunk_updater_def)

lemma foldl_onChunk_updater:
  assumes "message_state \<noteq> []" and "role (last message_state) = Assistant"
  shows "foldl (\<lambda>ms F. onChunk_updater F ms) message_state Fs =
           butlast message_state
             @ [(last message_state)\<lparr>content := content (last message_state) @ concat Fs\<rparr>]"
  using assms
proof (induction Fs arbitrary: message_state)
  case Nil
  then show ?case by simp
next
  case (Cons F Fs)
  let ?ms = "onChunk_updater F message_state"
  have step: "?ms = butlast message_state
      @ [(last message_state)\<lparr>content := content (last message_state) @ F\<rparr>]"
    using Cons.prems by (rule onChunk_updater_tail)
  have "?ms \<noteq> []" and "role (last ?ms) = Assistant"
    using Cons.prems by (simp_all add: step)
  from Cons.IH [OF this] show ?case
    by (simp add: step)
qed

text \<open>
  C2. While the last message of the transcript has role assistant, every fold keeps the
  length of the transcript and every message but the last, and appends the fragment to
  the content of the last message; after the fragments \<open>Fs\<close> have been folded in order
  the last message is the old one with \<open>concat Fs\<close> appended to its content.
\<close>

theorem fold_only_appends_to_tail:
  assumes "message_state \<noteq> []" and "role (last message_state) = Assistant"
  shows "length (onChunk_updater F message_state) = length message_state
       \<and> butlast (onChunk_updater F message_state) = butlast message_state
       \<and> last (onChunk_updater F message_state)
           = (last message_state)\<lparr>content := content (last message_state) @ F\<rparr>
       \<and> length (foldl (\<lambda>ms F. onChunk_updater F ms) message_state Fs) = length message_state
       \<and> butlast (foldl (\<lambda>ms F. onChunk_updater F ms) message_state Fs) = butlast message_state
       \<and> role (last (foldl (\<lambda>ms F. onChunk_updater F ms) message_state Fs)) = Assistant
       \<and> content (last (foldl (\<lambda>ms F. onChunk_updater F ms) message_state Fs))
           = content (last message_state) @ concat Fs"
proof -
  note one = onChunk_updater_tail [OF assms, of F]
  note all = foldl_onChunk_updater [OF assms, of Fs]
  have len: "length (butlast message_state) + 1 = length message_state"
    using assms(1) by simp
  show ?thesis
    using assms(2) len by (simp add: one all)
qed

theorem fold_only_appends_to_tail_witness:
  "foldl (\<lambda>ms F. onChunk_updater F ms)
     [\<lparr>role = User, content = js ''hi''\<rparr>, \<lparr>role = Assistant, content = []\<rparr>]
     [js ''Hel'', js ''lo'']
   = [\<lparr>role = User, content = js ''hi''\<rparr>, \<lparr>role = Assistant, content = js ''Hello''\<rparr>]"
proof -
  let ?ms = "[\<lparr>role = User, content = js ''hi''\<rparr>, \<lparr>role = Assistant, content = []\<rparr>]"
  define r where "r = foldl (\<lambda>ms F. onChunk_updater F ms) ?ms [js ''Hel'', js ''lo'']"
  have a: "?ms \<noteq> []" and b: "role (last ?ms) = Assistant"
    by simp_all
  from fold_only_appends_to_tail [OF a b, of "js ''Hel''" "[js ''Hel'', js ''lo'']"]
  have len: "length r = 2"
    and bl: "butlast r = [\<lparr>role = User, content = js ''hi''\<rparr>]"
    and rl: "role (last r) = Assistant"
    and cl: "content (last r) = js ''Hello''"
    unfolding r_def by (simp_all add: js_def)
  from len have ne: "r \<noteq> []" by auto
  have "last r = \<lparr>role = Assistant, content = js ''Hello''\<rparr>"
    using rl cl by (cases "last r") simp
  with bl have "butlast r @ [last r]
      = [\<lparr>role = User, content = js ''hi''\<rparr>, \<lparr>role = Assistant, content = js ''Hello''\<rparr>]"
    by simp
  then have "r = [\<lparr>role = User, content = js ''hi''\<rparr>, \<lparr>role = Assistant, content = js ''Hello''\<rparr>]"
    using ne by simp
  then show ?thesis
    unfolding r_def .
qed

section \<open>One send: blank input, transport errors and the stored controller\<close>

lemma trim_blank:
  assumes "\<forall>c\<in>set s. isWhiteSpace c"
  shows "trim s = []"
proof -
  from assms have "dropWhile isWhiteSpace s = []"
    by (induction s) simp_all
  then show ?thesis
    by (simp only: trim_def rev.simps dropWhile.simps)
qed

lemmas handleSend_eval =
  handleSend_def handleSend_begin_def post_prompt_def setMessages_def setStreaming_def setAbortController_def
  handleSend_onChunk_def onChunk_updater_def answers_def

text \<open>
  C8. An input that is empty or consists of white space only leaves the component as it
  is, whatever the network would answer: the transcript, the requests posted and the
  streaming flag are unchanged.
\<close>

theorem blank_input_is_ignored:
  assumes "\<forall>c\<in>set input. isWhiteSpace c"
  shows "handleSend nts network input st = st
       \<and> messages (handleSend nts network input st) = messages st
       \<and> posted (handleSend nts network input st) = posted st
       \<and> streaming (handleSend nts network input st) = streaming st"
  using trim_blank [OF assms] by (simp add: handleSend_def)

theorem blank_input_is_ignored_witness:
  "handleSend id (answers (Fetch_rejected NetworkError)) (js ''   '')
     \<lparr>messages = [\<lparr>role = User, content = js ''hi''\<rparr>], streaming = True,
      abortController = None, console_error = [], posted = [js ''hi'']\<rparr>
   = \<lparr>messages = [\<lparr>role = User, content = js ''hi''\<rparr>], streaming = True,
      abortController = None, console_error = [], posted = [js ''hi'']\<rparr>"
proof -
  have "\<forall>c\<in>set (js ''   ''). isWhiteSpace c"
    by (simp add: js_def isWhiteSpace_def)
  from blank_input_is_ignored [OF this] show ?thesis
    by simp
qed

text \<open>
  C7. A response whose status is outside 200 to 299, or that has no body, makes
  \<open>chatWithLLM\<close> throw with the callback not run. \<open>handleSend\<close> has then appended the user
  message and the empty assistant message, written the error with \<open>console.error\<close> and
  cleared the streaming flag. However \<open>chatWithLLM\<close> ends, a send of an input that is not
  blank ends with the streaming flag cleared.
\<close>

theorem transport_error_is_terminal:
  "(\<not> ok res \<longrightarrow>
      chatWithLLM nts onChunk (Response res) st
        = Thrown (Error (js ''Stream request failed: '' @ decimal (status res))) st)
   \<and> (ok res \<and> body res = None \<longrightarrow>
      chatWithLLM nts onChunk (Response res) st = Thrown (Error (js ''No response body'')) st)
   \<and> (trim input \<noteq> [] \<and> network input = Response res \<and> (\<not> ok res \<or> body res = None) \<longrightarrow>
      handleSend nts network input cb
        = cb\<lparr>messages := messages cb @ [\<lparr>role = User, content = input\<rparr>,
                                         \<lparr>role = Assistant, content = []\<rparr>],
             streaming := False,
             abortController := Some \<lparr>aborted = False\<rparr>,
             console_error := console_error cb @
               [if \<not> ok res then Error (js ''Stream request failed: '' @ decimal (status res))
                else Error (js ''No response body'')],
             posted := posted cb @ [input]\<rparr>)
   \<and> (trim input \<noteq> [] \<longrightarrow> streaming (handleSend nts network input cb) = False)"
proof (intro conjI impI)
  show "chatWithLLM nts onChunk (Response res) st
        = Thrown (Error (js ''Stream request failed: '' @ decimal (status res))) st"
    if "\<not> ok res"
    using that by (simp add: chatWithLLM_def)
  show "chatWithLLM nts onChunk (Response res) st = Thrown (Error (js ''No response body'')) st"
    if "ok res \<and> body res = None"
    using that by (simp add: chatWithLLM_def)
  show "handleSend nts network input cb
        = cb\<lparr>messages := messages cb @ [\<lparr>role = User, content = input\<rparr>,
                                         \<lparr>role = Assistant, content = []\<rparr>],
             streaming := False,
             abortController := Some \<lparr>aborted = False\<rparr>,
             console_error := console_error cb @
               [if \<not> ok res then Error (js ''Stream request failed: '' @ decimal (status res))
                else Error (js ''No response body'')],
             posted := posted cb @ [input]\<rparr>"
    if "trim input \<noteq> [] \<and> network input = Response res \<and> (\<not> ok res \<or> body res = None)"
    using that
    by (auto simp: handleSend_def handleSend_begin_def post_prompt_def setMessages_def setStreaming_def
        setAbortController_def chatWithLLM_def Let_def)
  show "streaming (handleSend nts network input cb) = False" if "trim input \<noteq> []"
    using that by (simp add: handleSend_def setStreaming_def Let_def)
qed

theorem transport_error_is_terminal_witness:
  "handleSend id (answers (Response \<lparr>status = 500, body = Some [Chunk (ascii ''data: x\<newline>\<newline>'')]\<rparr>))
     (js ''hi'')
     \<lparr>messages = [], streaming = False, abortController = None, console_error = [], posted = []\<rparr>
   = \<lparr>messages = [\<lparr>role = User, content = js ''hi''\<rparr>, \<lparr>role = Assistant, content = []\<rparr>],
      streaming = False, abortController = Some \<lparr>aborted = False\<rparr>,
      console_error = [Error (js ''Stream request failed: 500'')], posted = [js ''hi'']\<rparr>
   \<and> handleSend id (answers (Response \<lparr>status = 204, body = None\<rparr>))
     (js ''hi'')
     \<lparr>messages = [], streaming = False, abortController = None, console_error = [], posted = []\<rparr>
   = \<lparr>messages = [\<lparr>role = User, content = js ''hi''\<rparr>, \<lparr>role = Assistant, content = []\<rparr>],
      streaming = False, abortController = Some \<lparr>aborted = False\<rparr>,
      console_error = [Error (js ''No response body'')], posted = [js ''hi'']\<rparr>"
proof -
  let ?cb = "\<lparr>messages = [], streaming = False, abortController = None, console_error = [],
    posted = []\<rparr>"
  have d: "decimal 500 = js ''500''"
    by (simp add: decimal.simps [of 500] decimal.simps [of 50] decimal.simps [of 5] js_def)
  have a: "trim (js ''hi'') \<noteq> []
      \<and> answers (Response \<lparr>status = 500, body = Some [Chunk (ascii ''data: x\<newline>\<newline>'')]\<rparr>) (js ''hi'')
          = Response \<lparr>status = 500, body = Some [Chunk (ascii ''data: x\<newline>\<newline>'')]\<rparr>
      \<and> (\<not> ok \<lparr>status = 500, body = Some [Chunk (ascii ''data: x\<newline>\<newline>'')]\<rparr>
          \<or> body \<lparr>status = 500, body = Some [Chunk (ascii ''data: x\<newline>\<newline>'')]\<rparr> = None)"
    by (simp add: decoder_eval answers_def)
  have b: "trim (js ''hi'') \<noteq> []
      \<and> answers (Response \<lparr>status = 204, body = None\<rparr>) (js ''hi'')
          = Response \<lparr>status = 204, body = None\<rparr>
      \<and> (\<not> ok \<lparr>status = 204, body = None\<rparr> \<or> body \<lparr>status = 204, body = None\<rparr> = None)"
    by (simp add: decoder_eval answers_def)
  note general = transport_error_is_terminal [THEN conjunct2, THEN conjunct2, THEN conjunct1,
      rule_format]
  from general [where network = "answers (Response \<lparr>status = 500, body = Some [Chunk (ascii ''data: x\<newline>\<newline>'')]\<rparr>)"
        and input = "js ''hi''" and nts = id and cb = ?cb, OF a]
    general [where network = "answers (Response \<lparr>status = 204, body = None\<rparr>)"
        and input = "js ''hi''" and nts = id and cb = ?cb, OF b]
  show ?thesis
    by (simp add: d ok_def js_def)
qed


lemma handle_line_preserves:
  assumes "\<And>chunk s. P (f chunk s) = P s"
  shows "P (step_state (handle_line nts f line st)) = P st"
  by (simp add: handle_line_def assms Let_def split: option.splits sum.splits)

lemma for_lines_preserves:
  assumes "\<And>chunk s. P (f chunk s) = P s"
  shows "P (step_state (for_lines nts f lines st)) = P st"
proof (induction lines arbitrary: st)
  case Nil
  then show ?case by simp
next
  case (Cons line lines)
  from handle_line_preserves [of P f nts line st, OF assms] Cons.IH show ?case
    by (cases "handle_line nts f line st") simp_all
qed

lemma for_events_preserves:
  assumes "\<And>chunk s. P (f chunk s) = P s"
  shows "P (step_state (for_events nts f events st)) = P st"
proof (induction events arbitrary: st)
  case Nil
  then show ?case by simp
next
  case (Cons event events)
  from for_lines_preserves [of P f nts "split line_break event" st, OF assms] Cons.IH
  show ?case
    by (cases "for_lines nts f (split line_break event) st") simp_all
qed

lemma read_loop_preserves:
  assumes "\<And>chunk s. P (f chunk s) = P s"
  shows "P (completion_state (read_loop nts f reads d buffer st)) = P st"
proof (induction reads arbitrary: d buffer st)
  case Nil
  then show ?case by simp
next
  case (Cons r reads)
  show ?case
  proof (cases r)
    case (Read_rejected e)
    then show ?thesis by simp
  next
    case (Chunk bytes)
    obtain d' decoded where dec: "TextDecoder_decode d bytes = (d', decoded)"
      by (cases "TextDecoder_decode d bytes")
    define events where "events = split blank_line (buffer @ decoded)"
    note ev = for_events_preserves [of P f nts "butlast events" st, OF assms]
    show ?thesis
    proof (cases "for_events nts f (butlast events) st")
      case (Continue st')
      with ev Cons.IH [of d' "last events" st'] dec Chunk show ?thesis
        by (simp add: events_def)
    next
      case (Return st')
      with ev dec Chunk show ?thesis by (simp add: events_def)
    next
      case (Throw e st')
      with ev dec Chunk show ?thesis by (simp add: events_def)
    qed
  qed
qed

lemma chatWithLLM_preserves:
  assumes "\<And>chunk s. P (f chunk s) = P s"
  shows "P (completion_state (chatWithLLM nts f fetched st)) = P st"
  by (simp add: chatWithLLM_def read_loop_preserves [of P f, OF assms]
      split: fetch_result.splits option.splits)


lemma handleSend_onChunk_fields:
  "streaming (handleSend_onChunk chunk st) = streaming st"
  "abortController (handleSend_onChunk chunk st) = abortController st"
  "console_error (handleSend_onChunk chunk st) = console_error st"
  "posted (handleSend_onChunk chunk st) = posted st"
  by (simp_all add: handleSend_onChunk_def setMessages_def)

text \<open>
  C6. The component has no operation that cancels a send. Its handle is
  \<open>{ handleSend, streaming }\<close>, and a send of an input that is not blank stores a new
  controller that is not aborted when the send has ended, whatever the network has
  answered. A send that has begun therefore runs to the end of the body: answered with a
  body of two reads that carry the fragments \<open>Hel\<close> and \<open>lo\<close>, the send appends both, and the
  assistant message is \<open>Hello\<close>.
\<close>

theorem send_runs_to_the_end_of_the_body:
  "abortController (handleSend nts network input cb)
     = (if trim input = [] then abortController cb else Some \<lparr>aborted = False\<rparr>)
   \<and> handleSend id
       (answers (Response \<lparr>status = 200, body = Some
          [Chunk (ascii ''data: {\"text\":\"Hel\"}\<newline>\<newline>''),
           Chunk (ascii ''data: {\"text\":\"lo\"}\<newline>\<newline>'')]\<rparr>))
       (js ''hi'')
       \<lparr>messages = [], streaming = False, abortController = None, console_error = [], posted = []\<rparr>
     = \<lparr>messages = [\<lparr>role = User, content = js ''hi''\<rparr>, \<lparr>role = Assistant, content = js ''Hello''\<rparr>],
        streaming = False, abortController = Some \<lparr>aborted = False\<rparr>,
        console_error = [], posted = [js ''hi'']\<rparr>"
proof -
  have stored: "abortController (handleSend nts network input cb) = Some \<lparr>aborted = False\<rparr>"
    if "trim input \<noteq> []"
  proof -
    let ?st = "post_prompt input (handleSend_begin input cb)"
    have "abortController (completion_state (chatWithLLM nts handleSend_onChunk (network input) ?st))
        = abortController ?st"
      by (rule chatWithLLM_preserves) (simp add: handleSend_onChunk_fields)
    then show ?thesis
      using that
      by (cases "chatWithLLM nts handleSend_onChunk (network input) ?st")
        (simp_all add: handleSend_def setStreaming_def post_prompt_def handleSend_begin_def
          setMessages_def setAbortController_def Let_def)
  qed
  have blank: "abortController (handleSend nts network input cb) = abortController cb"
    if "trim input = []"
    using that by (simp add: handleSend_def)
  have run: "handleSend id
       (answers (Response \<lparr>status = 200, body = Some
          [Chunk (ascii ''data: {\"text\":\"Hel\"}\<newline>\<newline>''),
           Chunk (ascii ''data: {\"text\":\"lo\"}\<newline>\<newline>'')]\<rparr>))
       (js ''hi'')
       \<lparr>messages = [], streaming = False, abortController = None, console_error = [], posted = []\<rparr>
     = \<lparr>messages = [\<lparr>role = User, content = js ''hi''\<rparr>, \<lparr>role = Assistant, content = js ''Hello''\<rparr>],
        streaming = False, abortController = Some \<lparr>aborted = False\<rparr>,
        console_error = [], posted = [js ''hi'']\<rparr>"
    by (simp add: decoder_eval handleSend_eval)
  from stored blank run show ?thesis
    by (simp del: TextDecoder_decode.simps read_loop.simps)
qed


end
